theory Spec2Isabelle
  imports Complex_Main
begin

section \<open>The game tree of en-croissant: data model\<close>

text \<open>
  The embedding follows \<^verbatim>\<open>src/utils/treeReducer.ts\<close>, \<^verbatim>\<open>src/state/store/tree.ts\<close> and
  \<^verbatim>\<open>src/utils/chess.ts\<close>. A \<^verbatim>\<open>TreeNode\<close> is a JavaScript object: besides its fields it has an
  identity, which \<^verbatim>\<open>===\<close> compares and which a spread copy \<^verbatim>\<open>{...node}\<close> renews. The identity
  is the component \<open>oid\<close> of a node; every function that creates an object takes the next unused
  identity and returns the one after the last it used. JavaScript numbers that are used as counters
  and indices are \<open>int\<close> or \<open>nat\<close>; evaluation scores and clock values are \<open>real\<close>.
\<close>

datatype failure = TypeError | UnwrapError | UndefinedChild

datatype move = NormalMove nat nat "string option" | DropMove string nat

datatype score_value = Cp real | Mate real

record score =
  svalue :: score_value
  wdl :: "(real \<times> real \<times> real) option"

record drawshape =
  orig :: string
  dest :: "string option"
  brush :: "string option"

record node_info =
  fen :: string
  move :: "move option"
  san :: "string option"
  score :: "score option"
  depth :: "real option"
  halfMoves :: int
  shapes :: "drawshape list"
  annotations :: "string list"
  comment :: string
  clock :: "real option"

datatype node = Node (oid: nat) (info: node_info) (children: "node list")

record game_headers =
  hid :: int
  hfen :: string
  event :: string
  site :: string
  date :: "string option"
  hround :: "string option"
  white :: string
  white_elo :: "int option"
  black :: string
  black_elo :: "int option"
  result :: string
  time_control :: "string option"
  white_time_control :: "string option"
  black_time_control :: "string option"
  eco :: "string option"
  variant :: "string option"
  start :: "nat list option"
  orientation :: "string option"

record report_state =
  inProgress :: bool

text \<open>
  \<^verbatim>\<open>TreeState\<close>. The field \<open>next_oid\<close> is not a field of the source: it is the allocator, the
  least identity that no object of the program has yet.
\<close>

record tree_state =
  root :: node
  headers :: game_headers
  position :: "nat list"
  dirty :: bool
  report :: report_state
  next_oid :: nat

definition INITIAL_FEN :: string where
  "INITIAL_FEN = ''rnbqkbnr/pppppppp/8/8/8/8/PPPPPPPP/RNBQKBNR w KQkq - 0 1''"

section \<open>Path addressing\<close>

text \<open>\<^verbatim>\<open>getNodeAtPath\<close>: an index beyond the children returns the node reached so far.\<close>

fun getNodeAtPath :: "node \<Rightarrow> nat list \<Rightarrow> node" where
  "getNodeAtPath node [] = node"
| "getNodeAtPath node (index # path) =
     (if index \<ge> length (children node) then node
      else getNodeAtPath (children node ! index) path)"

text \<open>The part of a path that \<^verbatim>\<open>getNodeAtPath\<close> really walks, and whether it walks all of it.\<close>

fun resolved :: "node \<Rightarrow> nat list \<Rightarrow> nat list" where
  "resolved node [] = []"
| "resolved node (index # path) =
     (if index \<ge> length (children node) then []
      else index # resolved (children node ! index) path)"

fun resolves :: "node \<Rightarrow> nat list \<Rightarrow> bool" where
  "resolves node [] = True"
| "resolves node (index # path) =
     (index < length (children node) \<and> resolves (children node ! index) path)"

text \<open>
  A mutation through a reference obtained from \<^verbatim>\<open>getNodeAtPath(root, path)\<close>: in a tree, where no
  object is reachable along two paths, it changes the node at that place and nothing else.
\<close>

fun modifyNodeAtPath :: "(node \<Rightarrow> node) \<Rightarrow> node \<Rightarrow> nat list \<Rightarrow> node" where
  "modifyNodeAtPath f node [] = f node"
| "modifyNodeAtPath f node (index # path) =
     (if index \<ge> length (children node) then f node
      else Node (oid node) (info node)
             ((children node)[index := modifyNodeAtPath f (children node ! index) path]))"

definition modifyInfo :: "(node_info \<Rightarrow> node_info) \<Rightarrow> node \<Rightarrow> node" where
  "modifyInfo g node = Node (oid node) (g (info node)) (children node)"

definition modifyChildren :: "(node list \<Rightarrow> node list) \<Rightarrow> node \<Rightarrow> node" where
  "modifyChildren g node = Node (oid node) (info node) (g (children node))"

text \<open>
  Modelled from the spec: \<^verbatim>\<open>isPrefix\<close> is imported from \<^verbatim>\<open>utils/misc\<close>, which is not among the
  sources. The specification uses it for "the cursor is at or below the path": the first list
  is an initial segment of the second.
\<close>

definition isPrefix :: "nat list \<Rightarrow> nat list \<Rightarrow> bool" where
  "isPrefix shorter longer =
     (length shorter \<le> length longer \<and> take (length shorter) longer = shorter)"

text \<open>Array helpers of JavaScript: \<^verbatim>\<open>findIndex\<close> (\<open>-1\<close> when absent), \<^verbatim>\<open>findLastIndex\<close>,
  \<^verbatim>\<open>splice(start, 1)\<close> with its negative and out-of-range starts.\<close>

fun findIndex :: "('a \<Rightarrow> bool) \<Rightarrow> 'a list \<Rightarrow> int" where
  "findIndex P [] = -1"
| "findIndex P (x # xs) =
     (if P x then 0 else (let r = findIndex P xs in if r = -1 then -1 else r + 1))"

fun findLastIndex :: "('a \<Rightarrow> bool) \<Rightarrow> 'a list \<Rightarrow> int" where
  "findLastIndex P [] = -1"
| "findLastIndex P (x # xs) =
     (let r = findLastIndex P xs in if r \<noteq> -1 then r + 1 else if P x then 0 else -1)"

definition splice1 :: "int \<Rightarrow> 'a list \<Rightarrow> 'a list" where
  "splice1 from xs =
     (let len = int (length xs);
          s = (if from < 0 then max (len + from) 0 else min from len)
      in take (nat s) xs @ drop (nat s + 1) xs)"

section \<open>Copy-on-write path cloning and the field edits\<close>

text \<open>\<^verbatim>\<open>clonePath\<close>: the root and every node the path reaches are copied, top down.\<close>

function clonePath :: "nat \<Rightarrow> node \<Rightarrow> nat list \<Rightarrow> nat \<times> node" where
  "clonePath nx node [] = (Suc nx, Node nx (info node) (children node))"
| "clonePath nx node (idx # path) =
     (if idx \<ge> length (children node) then (Suc nx, Node nx (info node) (children node))
      else (case clonePath (Suc nx) (children node ! idx) path of
              (nx', clonedChild) \<Rightarrow>
                (nx', Node nx (info node) ((children node)[idx := clonedChild]))))"
  by pat_completeness auto
termination
  by (relation "measure (\<lambda>(nx, node, path). length path)") auto

text \<open>The tables of \<^verbatim>\<open>@/utils/annotation\<close>, which is not among the sources, are parameters.\<close>

record annotation_tables =
  ann_group :: "string \<Rightarrow> string option"
  ann_nag :: "string \<Rightarrow> int"
  nag_info :: "string \<Rightarrow> string option"
  isBasicAnnotation :: "string \<Rightarrow> bool"





text \<open>\<^verbatim>\<open>clearShapes\<close> gives the clone a new empty array, and nothing when there is no shape.\<close>

definition clearShapes :: "tree_state \<Rightarrow> tree_state" where
  "clearShapes state =
     (let node = getNodeAtPath (root state) (position state)
      in if shapes (info node) = [] then state
         else (case clonePath (next_oid state) (root state) (position state) of
                 (nx, newRoot) \<Rightarrow>
                   state\<lparr>root := modifyNodeAtPath (modifyInfo (\<lambda>i. i\<lparr>shapes := []\<rparr>))
                                    newRoot (position state),
                         dirty := True, next_oid := nx\<rparr>))"




text \<open>The identities of all objects of a tree, and the invariant of the data model: no object
  occurs twice in the tree, and the allocator is beyond all of them.\<close>

fun oids :: "node \<Rightarrow> nat list" where
  "oids (Node i d cs) = i # concat (map oids cs)"

definition tree_inv :: "tree_state \<Rightarrow> bool" where
  "tree_inv state = (distinct (oids (root state)) \<and> (\<forall>i \<in> set (oids (root state)). i < next_oid state))"

section \<open>Deleting and promoting\<close>

text \<open>
  \<^verbatim>\<open>deleteMove(state, path)\<close>. It runs on the draft that \<^verbatim>\<open>produce\<close> (of the library immer) makes
  of the state; the drafts of a tree are in one-to-one correspondence with its objects, so
  \<^verbatim>\<open>n === node\<close> is the equality of identities. The guards \<^verbatim>\<open>if (!node) return\<close> never fire:
  \<^verbatim>\<open>getNodeAtPath\<close> always returns a node. The result has the content that \<^verbatim>\<open>produce\<close> returns;
  the new identities that \<^verbatim>\<open>produce\<close> gives to the objects it copies are not followed, here and
  in the operations on variations below.
\<close>

definition deleteMove :: "tree_state \<Rightarrow> nat list \<Rightarrow> tree_state" where
  "deleteMove state path =
     (let node = getNodeAtPath (root state) path;
          parent = getNodeAtPath (root state) (butlast path);
          index = findIndex (\<lambda>n. oid n = oid node) (children parent);
          state1 = state\<lparr>root := modifyNodeAtPath (modifyChildren (splice1 index))
                                    (root state) (butlast path)\<rparr>
      in if isPrefix path (position state1) then state1\<lparr>position := butlast path\<rparr>
         else if isPrefix (butlast path) (position state1) then
           (if length (position state1) \<ge> length path
            then state1\<lparr>position := (position state1)[length path - 1 := 0]\<rparr>
            else state1)
         else state1)"

text \<open>The store action: \<^verbatim>\<open>state.dirty = true; deleteMove(state, path ?? state.position)\<close>.\<close>

definition deleteMoveAction :: "nat list option \<Rightarrow> tree_state \<Rightarrow> tree_state" where
  "deleteMoveAction path state =
     deleteMove (state\<lparr>dirty := True\<rparr>)
       (case path of None \<Rightarrow> position state | Some p \<Rightarrow> p)"

text \<open>
  \<^verbatim>\<open>promoteVariation(state, path)\<close>. \<^verbatim>\<open>node.children.splice(v, 1)[0]\<close> is \<^verbatim>\<open>undefined\<close> when \<open>v\<close> is
  not an index of the children; \<^verbatim>\<open>unshift\<close> then puts \<^verbatim>\<open>undefined\<close> among the children and the
  state is no \<^verbatim>\<open>TreeState\<close> any more: the failure \<open>UndefinedChild\<close>.
\<close>

definition promoteVariation :: "tree_state \<Rightarrow> nat list \<Rightarrow> failure + tree_state" where
  "promoteVariation state path =
     (let i = findLastIndex (\<lambda>v. v \<noteq> 0) path
      in if i = -1 then Inr state
         else
           (let v = path ! nat i;
                promotablePath = take (nat i) path;
                node = getNodeAtPath (root state) promotablePath
            in if v \<ge> length (children node) then Inl UndefinedChild
               else Inr (state\<lparr>root := modifyNodeAtPath
                                         (modifyChildren (\<lambda>cs. (cs ! v) # splice1 (int v) cs))
                                         (root state) promotablePath,
                               position := path[nat i := 0]\<rparr>)))"

definition promoteVariationAction :: "nat list \<Rightarrow> tree_state \<Rightarrow> failure + tree_state" where
  "promoteVariationAction path state = promoteVariation (state\<lparr>dirty := True\<rparr>) path"

text \<open>The loop of \<^verbatim>\<open>promoteToMainline\<close>: \<^verbatim>\<open>while (p.some((v) => v !== 0))\<close>.\<close>

function promoteLoop :: "tree_state \<Rightarrow> nat list \<Rightarrow> failure + tree_state" where
  "promoteLoop state p =
     (if \<exists>v \<in> set p. v \<noteq> 0 then
        (case promoteVariation state p of
           Inl e \<Rightarrow> Inl e
         | Inr state' \<Rightarrow> promoteLoop state' (position state'))
      else Inr state)"
  by pat_completeness auto
termination
proof (relation "measure (\<lambda>(state, p). length (filter (\<lambda>v. v \<noteq> 0) p))")
  show "wf (measure (\<lambda>(state, p). length (filter (\<lambda>v. v \<noteq> 0) p)))"
    by simp
next
  fix state :: tree_state and p :: "nat list" and state' :: tree_state
  assume nz: "\<exists>v \<in> set p. v \<noteq> 0" and pv: "promoteVariation state p = Inr state'"
  have last_nonzero: "((\<forall>v \<in> set q. v = 0) \<and> findLastIndex (\<lambda>v. v \<noteq> 0) q = -1)
      \<or> (0 \<le> findLastIndex (\<lambda>v. v \<noteq> 0) q
          \<and> findLastIndex (\<lambda>v. v \<noteq> 0) q < int (length q)
          \<and> q ! nat (findLastIndex (\<lambda>v. v \<noteq> 0) q) \<noteq> 0)" for q :: "nat list"
  proof (induction q)
    case Nil
    show ?case by simp
  next
    case (Cons x q)
    then show ?case
      by (auto simp: Let_def nat_add_distrib)
  qed
  have fewer: "j < length q \<Longrightarrow> q ! j \<noteq> 0 \<Longrightarrow>
      length (filter (\<lambda>v. v \<noteq> 0) (q[j := 0])) < length (filter (\<lambda>v. v \<noteq> 0) q)"
    for q :: "nat list" and j
  proof (induction q arbitrary: j)
    case Nil
    then show ?case by simp
  next
    case (Cons x q)
    then show ?case by (cases j) auto
  qed
  let ?i = "findLastIndex (\<lambda>v. v \<noteq> 0) p"
  from last_nonzero [of p] nz have i: "0 \<le> ?i" "?i < int (length p)" "p ! nat ?i \<noteq> 0"
    by auto
  from pv i(1) have pos: "position state' = p[nat ?i := 0]"
    by (auto simp: promoteVariation_def Let_def split: if_splits)
  have "nat ?i < length p" using i by linarith
  with fewer [of "nat ?i" p] i(3) pos
  show "((state', position state'), (state, p)) \<in> measure (\<lambda>(state, p). length (filter (\<lambda>v. v \<noteq> 0) p))"
    by simp
qed

declare promoteLoop.simps [simp del]

text \<open>The store action \<^verbatim>\<open>promoteToMainline\<close>.\<close>

definition promoteToMainline :: "nat list \<Rightarrow> tree_state \<Rightarrow> failure + tree_state" where
  "promoteToMainline path state = promoteLoop (state\<lparr>dirty := True\<rparr>) path"

text \<open>The effect of \<^verbatim>\<open>parent.children.splice(k, 1)\<close> and of
  \<^verbatim>\<open>node.children.unshift(node.children.splice(v, 1)[0])\<close> on a node, written with list
  operations: these are what the operations above are proved to do.\<close>

definition removeChild :: "nat \<Rightarrow> node \<Rightarrow> node" where
  "removeChild k n = Node (oid n) (info n) (take k (children n) @ drop (Suc k) (children n))"

definition promoteChild :: "nat \<Rightarrow> node \<Rightarrow> node" where
  "promoteChild v n =
     Node (oid n) (info n) ((children n ! v) # take v (children n) @ drop (Suc v) (children n))"

section \<open>Move application\<close>

text \<open>
  The rules engine (the library \<^verbatim>\<open>chessops\<close> and the wrappers of \<^verbatim>\<open>@/utils/chessops\<close>) is not part
  of the sources: it is a parameter, a record of functions on a type \<open>'pos\<close> of live positions.
  \<^verbatim>\<open>pos.play(move)\<close> changes the position in place; here \<open>play\<close> returns the new position.
  \<^verbatim>\<open>makeFen\<close> stands for \<^verbatim>\<open>makeFen(pos.toSetup())\<close>; \<open>parseFen\<close> tells whether \<^verbatim>\<open>parseFen(fen)\<close>
  succeeds and \<open>fromSetup\<close> is \<^verbatim>\<open>Chess.fromSetup\<close> on the setup of a string that parses.
  \<^verbatim>\<open>playSound\<close> has no effect on the tree and is left out.
\<close>

datatype color = White | Black

record pgn_comment =
  ctext :: string
  cshapes :: "drawshape list"
  cclock :: "real option"
  cevaluation :: "score_value option"

record 'pos rules =
  positionFromFen :: "string \<Rightarrow> 'pos option"
  parseSan :: "'pos \<Rightarrow> string \<Rightarrow> move option"
  parseUci :: "string \<Rightarrow> move option"
  parseSanOrUci :: "'pos \<Rightarrow> string \<Rightarrow> move option"
  makeSan :: "'pos \<Rightarrow> move \<Rightarrow> string"
  play :: "'pos \<Rightarrow> move \<Rightarrow> 'pos"
  makeFen :: "'pos \<Rightarrow> string"
  turn :: "'pos \<Rightarrow> color"
  isEnd :: "'pos \<Rightarrow> bool"
  isCheckmate :: "'pos \<Rightarrow> bool"
  isStalemate :: "'pos \<Rightarrow> bool"
  isInsufficientMaterial :: "'pos \<Rightarrow> bool"
  parseFen :: "string \<Rightarrow> bool"
  fromSetup :: "string \<Rightarrow> 'pos option"
  parseComment :: "string \<Rightarrow> pgn_comment"

text \<open>
  \<^verbatim>\<open>String.prototype.trim\<close>. A character of a string is a code unit below 256 here, and the
  white space of ECMAScript among these is the tab, the line feed, the vertical tab, the form
  feed, the carriage return, the space and the no-break space U+00A0. The white space above
  (U+1680, U+2000 to U+200A, U+2028, U+2029, U+202F, U+205F, U+3000, U+FEFF) is in no string of
  this type.
\<close>

definition isSpaceChar :: "char \<Rightarrow> bool" where
  "isSpaceChar c =
     (c \<in> set [CHR '' '', CHR 0x09, CHR 0x0A, CHR 0x0B, CHR 0x0C, CHR 0x0D, CHR 0xA0])"

definition trim :: "string \<Rightarrow> string" where
  "trim s = rev (dropWhile isSpaceChar (rev (dropWhile isSpaceChar s)))"

text \<open>\<^verbatim>\<open>createNode\<close>: \<^verbatim>\<open>clock ? clock / 1000 : undefined\<close>, where \<open>0\<close> is falsy.\<close>

definition createNode :: "nat \<Rightarrow> string \<Rightarrow> move \<Rightarrow> string \<Rightarrow> int \<Rightarrow> real option \<Rightarrow> node" where
  "createNode nx fen' move' san' halfMoves' clock' =
     Node nx
       \<lparr>fen = fen', move = Some move', san = Some san', score = None, depth = None,
        halfMoves = halfMoves', shapes = [], annotations = [], comment = [],
        clock = (case clock' of None \<Rightarrow> None
                 | Some c \<Rightarrow> if c = 0 then None else Some (c / 1000))\<rparr>
       []"

text \<open>\<^verbatim>\<open>defaultTree(fen?, turn?)\<close>.\<close>

definition defaultTree :: "'pos rules \<Rightarrow> nat \<Rightarrow> string option \<Rightarrow> color option \<Rightarrow> tree_state" where
  "defaultTree R nx fen' turn' =
     (let resolvedTurn =
            (case turn' of
               Some t \<Rightarrow> t
             | None \<Rightarrow>
                 (case positionFromFen R (case fen' of None \<Rightarrow> INITIAL_FEN | Some f \<Rightarrow> f) of
                    None \<Rightarrow> White
                  | Some pos \<Rightarrow> turn R pos))
      in \<lparr>root = Node nx
                   \<lparr>fen = (case fen' of None \<Rightarrow> INITIAL_FEN | Some f \<Rightarrow> trim f),
                    move = None, san = None, score = None, depth = None,
                    halfMoves = (if resolvedTurn = Black then 1 else 0),
                    shapes = [], annotations = [], comment = [], clock = None\<rparr>
                   [],
          headers = \<lparr>hid = 0, hfen = (case fen' of None \<Rightarrow> INITIAL_FEN | Some f \<Rightarrow> f),
                     event = [], site = [], date = None, hround = None, white = [],
                     white_elo = None, black = [], black_elo = None, result = ''*'',
                     time_control = None, white_time_control = None,
                     black_time_control = None, eco = None, variant = None, start = None,
                     orientation = None\<rparr>,
          position = [], dirty = False, report = \<lparr>inProgress = False\<rparr>,
          next_oid = Suc nx\<rparr>)"

text \<open>\<^verbatim>\<open>s.split(sep)[0]\<close> for a non-empty separator: the part of \<open>s\<close> before the first occurrence of
  \<open>sep\<close>, all of \<open>s\<close> when there is none.\<close>

fun splitHead :: "string \<Rightarrow> string \<Rightarrow> string" where
  "splitHead sep [] = []"
| "splitHead sep (c # cs) =
     (if take (length sep) (c # cs) = sep then [] else c # splitHead sep cs)"

definition stripFen :: "string \<Rightarrow> string" where
  "stripFen f = splitHead '' - '' f"

text \<open>The nodes that the loops \<^verbatim>\<open>for (const i of state.position) { node = node.children[i]; ... }\<close>
  visit. Beyond the children \<^verbatim>\<open>node\<close> is \<^verbatim>\<open>undefined\<close>, and reading its field is a
  \<^verbatim>\<open>TypeError\<close>.\<close>

fun pathNodes :: "node \<Rightarrow> nat list \<Rightarrow> failure + node list" where
  "pathNodes node [] = Inr []"
| "pathNodes node (i # path) =
     (if i \<ge> length (children node) then Inl TypeError
      else (case pathNodes (children node ! i) path of
              Inl e \<Rightarrow> Inl e
            | Inr ns \<Rightarrow> Inr ((children node ! i) # ns)))"

definition isThreeFoldRepetition :: "tree_state \<Rightarrow> string \<Rightarrow> failure + bool" where
  "isThreeFoldRepetition state fen' =
     (case pathNodes (root state) (position state) of
        Inl e \<Rightarrow> Inl e
      | Inr ns \<Rightarrow>
          (let fens = stripFen INITIAL_FEN # map (\<lambda>n. stripFen (fen (info n))) ns
           in Inr (length (filter (\<lambda>f. f = stripFen fen') fens) \<ge> 2)))"

text \<open>The test of \<^verbatim>\<open>is50MoveRule\<close> on a notation: a first character from \<open>a\<close> to \<open>h\<close>, an \<open>x\<close>
  or an \<open>=\<close>. \<^verbatim>\<open>if (node.san)\<close> fails for \<^verbatim>\<open>null\<close> and for the empty string.\<close>

definition resetsCounter :: "string option \<Rightarrow> bool" where
  "resetsCounter s =
     (case s of
        None \<Rightarrow> False
      | Some [] \<Rightarrow> False
      | Some (c # cs) \<Rightarrow>
          (97 \<le> (of_char c :: nat) \<and> (of_char c :: nat) \<le> 104)
          \<or> CHR ''x'' \<in> set (c # cs) \<or> CHR ''='' \<in> set (c # cs))"

fun count50 :: "nat \<Rightarrow> node list \<Rightarrow> nat" where
  "count50 count [] = count"
| "count50 count (node # ns) =
     count50 (if resetsCounter (san (info node)) then 0 else count + 1) ns"

definition is50MoveRule :: "tree_state \<Rightarrow> failure + bool" where
  "is50MoveRule state =
     (case pathNodes (root state) (position state) of
        Inl e \<Rightarrow> Inl e
      | Inr ns \<Rightarrow> Inr (count50 0 ns \<ge> 100))"

text \<open>The condition
  \<^verbatim>\<open>(changeHeaders && isThreeFoldRepetition(state, newFen)) || is50MoveRule(state)\<close>, with the
  order of evaluation of \<^verbatim>\<open>&&\<close> and \<^verbatim>\<open>||\<close>.\<close>

definition drawCondition :: "bool \<Rightarrow> tree_state \<Rightarrow> string \<Rightarrow> failure + bool" where
  "drawCondition changeHeaders' state newFen =
     (if changeHeaders' then
        (case isThreeFoldRepetition state newFen of
           Inl e \<Rightarrow> Inl e
         | Inr True \<Rightarrow> Inr True
         | Inr False \<Rightarrow> is50MoveRule state)
      else is50MoveRule state)"

text \<open>The header updates on a position where the game has ended.\<close>

definition endHeaders :: "'pos rules \<Rightarrow> bool \<Rightarrow> 'pos \<Rightarrow> game_headers \<Rightarrow> game_headers" where
  "endHeaders R changeHeaders' pos h =
     (if changeHeaders' \<and> isEnd R pos then
        (let h1 = (if isCheckmate R pos
                   then h\<lparr>result := (if turn R pos = White then ''0-1'' else ''1-0'')\<rparr>
                   else h)
         in if isStalemate R pos \<or> isInsufficientMaterial R pos
            then h1\<lparr>result := ''1/2-1/2''\<rparr> else h1)
      else h)"

text \<open>The end of the main line: \<^verbatim>\<open>while (moveNode.children.length > 0) { position.push(0); ... }\<close>.\<close>

fun mainlinePath :: "node \<Rightarrow> nat list" where
  "mainlinePath (Node i d []) = []"
| "mainlinePath (Node i d (c # cs)) = 0 # mainlinePath c"

text \<open>
  \<^verbatim>\<open>makeMoveOnTree\<close>. The arguments after the move are \<^verbatim>\<open>last\<close>, \<^verbatim>\<open>changePosition\<close>,
  \<^verbatim>\<open>changeHeaders\<close>, \<^verbatim>\<open>mainline\<close> (with their defaults resolved by the caller) and \<^verbatim>\<open>clock\<close>.
  \<^verbatim>\<open>state.position === position\<close> holds exactly when \<^verbatim>\<open>last\<close> is false. An early \<^verbatim>\<open>return\<close> leaves
  the state as it is.
\<close>

definition makeMoveOnTree ::
  "'pos rules \<Rightarrow> tree_state \<Rightarrow> move \<Rightarrow> bool \<Rightarrow> bool \<Rightarrow> bool \<Rightarrow> bool \<Rightarrow> real option
     \<Rightarrow> failure + tree_state" where
  "makeMoveOnTree R state mv lastMove changePosition' changeHeaders' mainline' clock' =
     (let path = (if lastMove then mainlinePath (root state) else position state);
          moveNode = getNodeAtPath (root state) path
      in case positionFromFen R (fen (info moveNode)) of
           None \<Rightarrow> Inr state
         | Some pos \<Rightarrow>
             (let san' = makeSan R pos mv
              in if san' = ''--'' then Inr state
                 else
                   (let pos' = play R pos mv;
                        headers1 = endHeaders R changeHeaders' pos' (headers state);
                        newFen = makeFen R pos'
                    in case drawCondition changeHeaders' state newFen of
                         Inl e \<Rightarrow> Inl e
                       | Inr draw \<Rightarrow>
                           (let state2 = state\<lparr>headers :=
                                   (if draw then headers1\<lparr>result := ''1/2-1/2''\<rparr> else headers1)\<rparr>;
                                i = findIndex (\<lambda>n. san (info n) = Some san') (children moveNode)
                            in if i \<noteq> -1 then
                                 (if changePosition' then
                                    Inr (state2
                                      \<lparr>root := modifyNodeAtPath
                                          (modifyChildren (\<lambda>cs. cs[nat i :=
                                             Node (next_oid state) (info (cs ! nat i))
                                               (children (cs ! nat i))]))
                                          (root state) path,
                                       position := path @ [nat i],
                                       next_oid := Suc (next_oid state)\<rparr>)
                                  else Inr state2)
                               else
                                 (let newMoveNode =
                                        createNode (next_oid state) newFen mv san'
                                          (halfMoves (info moveNode) + 1) clock';
                                      n = Suc (length (children moveNode))
                                  in Inr (state2
                                      \<lparr>root := modifyNodeAtPath
                                          (modifyChildren (\<lambda>cs. if mainline' then newMoveNode # cs
                                                               else cs @ [newMoveNode]))
                                          (root state) path,
                                       position :=
                                         (if changePosition' then
                                            (if \<not> lastMove then
                                               (if mainline' then position state @ [0]
                                                else position state @ [n - 1])
                                             else path @ [n - 1])
                                          else position state),
                                       dirty := True,
                                       next_oid := Suc (next_oid state)\<rparr>))))))"

text \<open>The argument of the store action \<^verbatim>\<open>makeMove\<close>; \<open>None\<close> is an argument that is not given.\<close>

datatype payload = PSan string | PMove move

record makeMove_args =
  payload :: payload
  changePosition :: "bool option"
  mainline :: "bool option"
  arg_clock :: "real option"
  changeHeaders :: "bool option"

definition resolveMove :: "'pos rules \<Rightarrow> 'pos \<Rightarrow> payload \<Rightarrow> move option" where
  "resolveMove R pos p = (case p of PSan s \<Rightarrow> parseSan R pos s | PMove m \<Rightarrow> Some m)"

definition makeMove :: "'pos rules \<Rightarrow> makeMove_args \<Rightarrow> tree_state \<Rightarrow> failure + tree_state" where
  "makeMove R args state =
     (let curNode = getNodeAtPath (root state) (position state)
      in case positionFromFen R (fen (info curNode)) of
           None \<Rightarrow> Inr state
         | Some pos \<Rightarrow>
             (case resolveMove R pos (payload args) of
                None \<Rightarrow> Inr state
              | Some mv \<Rightarrow>
                  (let san' = makeSan R pos mv
                   in if san' = ''--'' then Inr state
                      else
                        (let existingIdx =
                               findIndex (\<lambda>n. san (info n) = Some san') (children curNode)
                         in if existingIdx \<noteq> -1 then
                              (if changePosition args = Some False then Inr state
                               else Inr (state\<lparr>position := position state @ [nat existingIdx]\<rparr>))
                            else
                              (case clonePath (next_oid state) (root state) (position state) of
                                 (nx, newRoot) \<Rightarrow>
                                   (case makeMoveOnTree R (state\<lparr>root := newRoot, next_oid := nx\<rparr>)
                                           mv False
                                           (changePosition args \<noteq> Some False)
                                           (changeHeaders args \<noteq> Some False)
                                           (mainline args = Some True)
                                           (arg_clock args) of
                                      Inl e \<Rightarrow> Inl e
                                    | Inr mutableState \<Rightarrow>
                                        Inr (state\<lparr>root := root mutableState,
                                                   position := position mutableState,
                                                   headers := headers mutableState,
                                                   dirty := dirty mutableState,
                                                   next_oid := next_oid mutableState\<rparr>)))))))"

text \<open>\<^verbatim>\<open>goToMove\<close>, the navigation that sets the cursor.\<close>

definition goToMove :: "nat list \<Rightarrow> tree_state \<Rightarrow> tree_state" where
  "goToMove mv state = state\<lparr>position := mv\<rparr>"

text \<open>
  The store action \<^verbatim>\<open>makeMoves\<close>, which applies a batch of moves written as strings. The
  position object \<^verbatim>\<open>pos\<close> is played on in place, move after move, by both loops; here it is
  passed along. The first loop follows children that exist and changes nothing: it returns
  \<open>None\<close> where the action returns the state unchanged because a string gives no move, and
  otherwise the moves that are left (none when the loop ran to its end), the position object,
  the cursor and the node it has reached.
\<close>

fun fastLoop ::
  "'pos rules \<Rightarrow> string list \<Rightarrow> 'pos \<Rightarrow> nat list \<Rightarrow> node
     \<Rightarrow> (string list \<times> 'pos \<times> nat list \<times> node) option" where
  "fastLoop R [] pos position' curNode = Some ([], pos, position', curNode)"
| "fastLoop R (s # rest) pos position' curNode =
     (case parseSanOrUci R pos s of
        None \<Rightarrow> None
      | Some m \<Rightarrow>
          (let san' = makeSan R pos m;
               childIdx = findIndex (\<lambda>n. san (info n) = Some san') (children curNode)
           in if childIdx = -1 then Some (s # rest, pos, position', curNode)
              else fastLoop R rest (play R pos m) (position' @ [nat childIdx])
                     (children curNode ! nat childIdx)))"

text \<open>The second loop adds the moves that are left with \<^verbatim>\<open>makeMoveOnTree\<close>, on the state built
  around the cloned path; it stops at a string that gives no move.\<close>

fun slowLoop ::
  "'pos rules \<Rightarrow> bool \<Rightarrow> bool \<Rightarrow> string list \<Rightarrow> 'pos \<Rightarrow> tree_state
     \<Rightarrow> failure + tree_state" where
  "slowLoop R mainline' changeHeaders' [] pos mutableState = Inr mutableState"
| "slowLoop R mainline' changeHeaders' (s # rest) pos mutableState =
     (case parseSanOrUci R pos s of
        None \<Rightarrow> Inr mutableState
      | Some m \<Rightarrow>
          (case makeMoveOnTree R mutableState m False True changeHeaders' mainline' None of
             Inl e \<Rightarrow> Inl e
           | Inr mutableState' \<Rightarrow>
               slowLoop R mainline' changeHeaders' rest (play R pos m) mutableState'))"

definition makeMoves ::
  "'pos rules \<Rightarrow> string list \<Rightarrow> bool option \<Rightarrow> bool option \<Rightarrow> tree_state
     \<Rightarrow> failure + tree_state" where
  "makeMoves R payload' mainline' changeHeaders' state =
     (let curNode = getNodeAtPath (root state) (position state)
      in case positionFromFen R (fen (info curNode)) of
           None \<Rightarrow> Inr state
         | Some pos \<Rightarrow>
             (case fastLoop R payload' pos (position state) curNode of
                None \<Rightarrow> Inr state
              | Some (rest, pos', position', curNode') \<Rightarrow>
                  if rest = [] then Inr (state\<lparr>position := position'\<rparr>)
                  else
                    (case clonePath (next_oid state) (root state) position' of
                       (nx, newRoot) \<Rightarrow>
                         (case slowLoop R (mainline' = Some True) (changeHeaders' \<noteq> Some False)
                                 rest pos'
                                 (state\<lparr>root := newRoot, position := position', dirty := True,
                                        next_oid := nx\<rparr>) of
                            Inl e \<Rightarrow> Inl e
                          | Inr mutableState \<Rightarrow>
                              Inr (state\<lparr>root := root mutableState,
                                         position := position mutableState,
                                         headers := headers mutableState,
                                         dirty := dirty mutableState,
                                         next_oid := next_oid mutableState\<rparr>)))))"

section \<open>Decimal numerals\<close>

text \<open>The decimal notation of a number, as template literals and string concatenation produce
  it for integers.\<close>

fun showNat :: "nat \<Rightarrow> string" where
  "showNat n = (if n < 10 then [''0123456789'' ! n]
                else showNat (n div 10) @ [''0123456789'' ! (n mod 10)])"

definition showInt :: "int \<Rightarrow> string" where
  "showInt i = (if i < 0 then CHR ''-'' # showNat (nat (- i)) else showNat (nat i))"

section \<open>An engine given by a table, and example trees\<close>

text \<open>
  A rules engine that knows finitely many positions: a position is its FEN, and a table lists
  the moves with the position they start from, their notation and the position they lead to.
  On these entries it answers as \<^verbatim>\<open>chessops\<close> does; everything else is illegal.
\<close>

type_synonym transition = "string \<times> string \<times> move \<times> string"

definition fenTurn :: "string \<Rightarrow> color" where
  "fenTurn f = (case dropWhile (\<lambda>c. c \<noteq> CHR '' '') f of
                  _ # c # _ \<Rightarrow> (if c = CHR ''b'' then Black else White)
                | _ \<Rightarrow> White)"

definition knownFen :: "transition list \<Rightarrow> string \<Rightarrow> bool" where
  "knownFen tab f = (f \<in> set (map fst tab) \<or> f \<in> set (map (\<lambda>(a, s, m, b). b) tab))"

definition tableRules :: "transition list \<Rightarrow> string rules" where
  "tableRules tab =
     \<lparr>positionFromFen = (\<lambda>f. if knownFen tab f then Some f else None),
      parseSan = (\<lambda>p s. map_option (\<lambda>(a, s', m, b). m)
                           (find (\<lambda>(a, s', m, b). a = p \<and> s' = s) tab)),
      parseUci = (\<lambda>s. None),
      parseSanOrUci = (\<lambda>p s. map_option (\<lambda>(a, s', m, b). m)
                                (find (\<lambda>(a, s', m, b). a = p \<and> s' = s) tab)),
      makeSan = (\<lambda>p m. case find (\<lambda>(a, s', m', b). a = p \<and> m' = m) tab of
                          None \<Rightarrow> ''--'' | Some (a, s', m', b) \<Rightarrow> s'),
      play = (\<lambda>p m. case find (\<lambda>(a, s', m', b). a = p \<and> m' = m) tab of
                       None \<Rightarrow> p | Some (a, s', m', b) \<Rightarrow> b),
      makeFen = (\<lambda>p. p),
      turn = fenTurn,
      isEnd = (\<lambda>p. False),
      isCheckmate = (\<lambda>p. False),
      isStalemate = (\<lambda>p. False),
      isInsufficientMaterial = (\<lambda>p. False),
      parseFen = knownFen tab,
      fromSetup = (\<lambda>f. if knownFen tab f then Some f else None),
      parseComment = (\<lambda>s. \<lparr>ctext = s, cshapes = [], cclock = None, cevaluation = None\<rparr>)\<rparr>"

text \<open>The positions after 1. e4, 1... e5, 1... c5 and 2. Nf3, and the moves between them.
  Squares are numbered from a1 = 0 to h8 = 63.\<close>

definition FEN_e4 :: string where
  "FEN_e4 = ''rnbqkbnr/pppppppp/8/8/4P3/8/PPPP1PPP/RNBQKBNR b KQkq - 0 1''"

definition FEN_e4_e5 :: string where
  "FEN_e4_e5 = ''rnbqkbnr/pppp1ppp/8/4p3/4P3/8/PPPP1PPP/RNBQKBNR w KQkq - 0 2''"

definition FEN_e4_c5 :: string where
  "FEN_e4_c5 = ''rnbqkbnr/pp1ppppp/8/2p5/4P3/8/PPPP1PPP/RNBQKBNR w KQkq - 0 2''"

definition FEN_e4_e5_Nf3 :: string where
  "FEN_e4_e5_Nf3 = ''rnbqkbnr/pppp1ppp/8/4p3/4P3/5N2/PPPP1PPP/RNBQKB1R b KQkq - 1 2''"

definition FEN_e4_c5_Nf3 :: string where
  "FEN_e4_c5_Nf3 = ''rnbqkbnr/pp1ppppp/8/2p5/4P3/5N2/PPPP1PPP/RNBQKB1R b KQkq - 1 2''"

definition openingTable :: "transition list" where
  "openingTable =
     [(INITIAL_FEN, ''e4'', NormalMove 12 28 None, FEN_e4),
      (FEN_e4, ''e5'', NormalMove 52 36 None, FEN_e4_e5),
      (FEN_e4, ''c5'', NormalMove 50 34 None, FEN_e4_c5),
      (FEN_e4_e5, ''Nf3'', NormalMove 6 21 None, FEN_e4_e5_Nf3),
      (FEN_e4_c5, ''Nf3'', NormalMove 6 21 None, FEN_e4_c5_Nf3)]"

text \<open>
  Knights going out and home: Nf3, Nf6, Ng1, Ng8 and again. \<open>shuffleFen opn k\<close> is the position
  after \<open>k\<close> such halfmoves, from the initial position or (\<open>opn\<close>) from the position after
  1. e4 e5, with the counters of the FEN as \<^verbatim>\<open>chessops\<close> writes them.
\<close>

definition shuffleFen :: "bool \<Rightarrow> nat \<Rightarrow> string" where
  "shuffleFen opn k =
     (if k mod 4 \<in> {2, 3} then ''rnbqkb1r'' else ''rnbqkbnr'') @ ''/''
     @ (if opn then ''pppp1ppp'' else ''pppppppp'') @ ''/''
     @ (if k mod 4 \<in> {2, 3} then ''5n2'' else ''8'') @ ''/''
     @ (if opn then ''4p3'' else ''8'') @ ''/''
     @ (if opn then ''4P3'' else ''8'') @ ''/''
     @ (if k mod 4 \<in> {1, 2} then ''5N2'' else ''8'') @ ''/''
     @ (if opn then ''PPPP1PPP'' else ''PPPPPPPP'') @ ''/''
     @ (if k mod 4 \<in> {1, 2} then ''RNBQKB1R'' else ''RNBQKBNR'')
     @ (if even k then '' w'' else '' b'') @ '' KQkq - ''
     @ showNat k @ '' '' @ showNat ((if opn then 2 else 1) + k div 2)"

definition shuffleSan :: "nat \<Rightarrow> string" where
  "shuffleSan k = [''Nf3'', ''Nf6'', ''Ng1'', ''Ng8''] ! (k mod 4)"

definition shuffleMove :: "nat \<Rightarrow> move" where
  "shuffleMove k =
     [NormalMove 6 21 None, NormalMove 62 45 None, NormalMove 21 6 None, NormalMove 45 62 None]
       ! (k mod 4)"

text \<open>The move from the position after \<open>k\<close> halfmoves of the shuffle.\<close>

definition shuffleStep :: "bool \<Rightarrow> nat \<Rightarrow> transition" where
  "shuffleStep opn k = (shuffleFen opn k, shuffleSan k, shuffleMove k, shuffleFen opn (Suc k))"

text \<open>The nodes of the shuffle: the fields of the node after \<open>k\<close> halfmoves (\<open>k\<close> at least 1);
  the line of the halfmoves \<open>k + 1\<close> to \<open>k + n\<close>, each node the only child of the one before,
  with identities from \<open>k + 1\<close> on; and the tree of the first \<open>n\<close> halfmoves with the cursor
  after \<open>c\<close> of them.\<close>

definition shuffleInfo :: "bool \<Rightarrow> nat \<Rightarrow> node_info" where
  "shuffleInfo opn k =
     \<lparr>fen = shuffleFen opn k, move = Some (shuffleMove (k - 1)), san = Some (shuffleSan (k - 1)),
      score = None, depth = None, halfMoves = int k, shapes = [], annotations = [],
      comment = [], clock = None\<rparr>"

fun shuffleLine :: "bool \<Rightarrow> nat \<Rightarrow> nat \<Rightarrow> node list" where
  "shuffleLine opn k 0 = []"
| "shuffleLine opn k (Suc n) =
     [Node (Suc k) (shuffleInfo opn (Suc k)) (shuffleLine opn (Suc k) n)]"

definition plainHeaders :: game_headers where
  "plainHeaders =
     \<lparr>hid = 0, hfen = INITIAL_FEN, event = [], site = [], date = None, hround = None,
      white = [], white_elo = None, black = [], black_elo = None, result = ''*'',
      time_control = None, white_time_control = None, black_time_control = None, eco = None,
      variant = None, start = None, orientation = None\<rparr>"

definition shuffleState :: "bool \<Rightarrow> nat \<Rightarrow> nat \<Rightarrow> tree_state" where
  "shuffleState opn n c =
     \<lparr>root = Node 0
               \<lparr>fen = shuffleFen opn 0, move = None, san = None, score = None, depth = None,
                halfMoves = 0, shapes = [], annotations = [], comment = [], clock = None\<rparr>
               (shuffleLine opn 0 n),
      headers = plainHeaders\<lparr>hfen := shuffleFen opn 0\<rparr>,
      position = replicate c 0, dirty = False, report = \<lparr>inProgress = False\<rparr>,
      next_oid = Suc n\<rparr>"

text \<open>The arguments of \<^verbatim>\<open>makeMove({ payload: san })\<close>.\<close>

definition sanArgs :: "string \<Rightarrow> makeMove_args" where
  "sanArgs s = \<lparr>payload = PSan s, changePosition = None, mainline = None, arg_clock = None,
                changeHeaders = None\<rparr>"

text \<open>The annotation tables on the six basic annotations, with their glyph numbers.\<close>

definition basicAnnotations :: annotation_tables where
  "basicAnnotations =
     \<lparr>ann_group = (\<lambda>a. if a \<in> set [''!'', ''?'', ''!!'', ''??'', ''!?'', ''?!'']
                        then Some ''1'' else None),
      ann_nag = (\<lambda>a. if a = ''!'' then 1 else if a = ''?'' then 2 else if a = ''!!'' then 3
                      else if a = ''??'' then 4 else if a = ''!?'' then 5
                      else if a = ''?!'' then 6 else 0),
      nag_info = (\<lambda>n. if n = ''$1'' then Some ''!'' else if n = ''$2'' then Some ''?''
                       else if n = ''$3'' then Some ''!!'' else if n = ''$4'' then Some ''??''
                       else if n = ''$5'' then Some ''!?'' else if n = ''$6'' then Some ''?!''
                       else None),
      isBasicAnnotation = (\<lambda>a. a \<in> set [''!'', ''?'', ''!!'', ''??'', ''!?'', ''?!''])\<rparr>"

text \<open>A tree with variations: 1. e4 (1. d4) 1... e5 (1... c5 2. Nf3) 2. Nf3, with the cursor
  given.\<close>

definition FEN_d4 :: string where
  "FEN_d4 = ''rnbqkbnr/pppppppp/8/8/3P4/8/PPP1PPPP/RNBQKBNR b KQkq - 0 1''"

definition mkNode :: "nat \<Rightarrow> string \<Rightarrow> move \<Rightarrow> string \<Rightarrow> int \<Rightarrow> node list \<Rightarrow> node" where
  "mkNode i f m s h cs = Node i (info (createNode i f m s h None)) cs"

definition exampleRoot :: node where
  "exampleRoot =
     Node 0 \<lparr>fen = INITIAL_FEN, move = None, san = None, score = None, depth = None,
             halfMoves = 0, shapes = [], annotations = [], comment = [], clock = None\<rparr>
       [mkNode 1 FEN_e4 (NormalMove 12 28 None) ''e4'' 1
          [mkNode 2 FEN_e4_e5 (NormalMove 52 36 None) ''e5'' 2
             [mkNode 3 FEN_e4_e5_Nf3 (NormalMove 6 21 None) ''Nf3'' 3 []],
           mkNode 4 FEN_e4_c5 (NormalMove 50 34 None) ''c5'' 2
             [mkNode 5 FEN_e4_c5_Nf3 (NormalMove 6 21 None) ''Nf3'' 3 []]],
        mkNode 6 FEN_d4 (NormalMove 11 27 None) ''d4'' 1 []]"

definition exampleState :: "nat list \<Rightarrow> tree_state" where
  "exampleState cursor =
     \<lparr>root = exampleRoot, headers = plainHeaders, position = cursor, dirty = False,
      report = \<lparr>inProgress = False\<rparr>, next_oid = 7\<rparr>"

text \<open>
  The knights at home by other ways: beside the line Nf3 Nf6 Ng1 of the cursor, the root has
  the variations Nc3 Nc6 Nb1 Nb8 and Na3 Na6 Nb1 Nb8, which both end in the position that Ng8
  gives on the line of the cursor.
\<close>

definition transposingState :: tree_state where
  "transposingState =
     \<lparr>root = Node 0
               \<lparr>fen = shuffleFen False 0, move = None, san = None, score = None, depth = None,
                halfMoves = 0, shapes = [], annotations = [], comment = [], clock = None\<rparr>
               (shuffleLine False 0 3 @
                [mkNode 4 ''rnbqkbnr/pppppppp/8/8/8/2N5/PPPPPPPP/R1BQKBNR b KQkq - 1 1''
                   (NormalMove 1 18 None) ''Nc3'' 1
                   [mkNode 5 ''r1bqkbnr/pppppppp/2n5/8/8/2N5/PPPPPPPP/R1BQKBNR w KQkq - 2 2''
                      (NormalMove 57 42 None) ''Nc6'' 2
                      [mkNode 6 ''r1bqkbnr/pppppppp/2n5/8/8/8/PPPPPPPP/RNBQKBNR b KQkq - 3 2''
                         (NormalMove 18 1 None) ''Nb1'' 3
                         [mkNode 7 (shuffleFen False 4) (NormalMove 42 57 None) ''Nb8'' 4 []]]],
                 mkNode 8 ''rnbqkbnr/pppppppp/8/8/8/N7/PPPPPPPP/R1BQKBNR b KQkq - 1 1''
                   (NormalMove 1 16 None) ''Na3'' 1
                   [mkNode 9 ''r1bqkbnr/pppppppp/n7/8/8/N7/PPPPPPPP/R1BQKBNR w KQkq - 2 2''
                      (NormalMove 57 40 None) ''Na6'' 2
                      [mkNode 10 ''r1bqkbnr/pppppppp/n7/8/8/8/PPPPPPPP/RNBQKBNR b KQkq - 3 2''
                         (NormalMove 16 1 None) ''Nb1'' 3
                         [mkNode 11 (shuffleFen False 4) (NormalMove 40 57 None) ''Nb8'' 4 []]]]]),
      headers = plainHeaders, position = [0, 0, 0], dirty = False,
      report = \<lparr>inProgress = False\<rparr>, next_oid = 12\<rparr>"

section \<open>Lines of the tree and sequences of moves\<close>

text \<open>The nodes below the root along a path (as far as the path resolves), and the direct
  ancestor chain of the cursor, which begins with the root.\<close>

fun nodesAlong :: "node \<Rightarrow> nat list \<Rightarrow> node list" where
  "nodesAlong node [] = []"
| "nodesAlong node (i # path) =
     (if i \<ge> length (children node) then []
      else (children node ! i) # nodesAlong (children node ! i) path)"

definition ancestorChain :: "node \<Rightarrow> nat list \<Rightarrow> node list" where
  "ancestorChain r path = r # nodesAlong r path"

text \<open>All nodes of a tree, variations included.\<close>

fun treeNodes :: "node \<Rightarrow> node list" where
  "treeNodes (Node i d cs) = Node i d cs # concat (map treeNodes cs)"

text \<open>The number of nodes of a list whose position, stripped as \<^verbatim>\<open>isThreeFoldRepetition\<close> strips
  it, is that of the given FEN.\<close>

definition occurrences :: "string \<Rightarrow> node list \<Rightarrow> nat" where
  "occurrences f ns = length (filter (\<lambda>n. stripFen (fen (info n)) = stripFen f) ns)"

text \<open>The halfmoves at the end of a line since the last node whose notation shows a pawn move,
  a capture or a promotion.\<close>

definition quietHalfmoves :: "node list \<Rightarrow> nat" where
  "quietHalfmoves ns = length (takeWhile (\<lambda>n. \<not> resetsCounter (san (info n))) (rev ns))"

text \<open>A move is legal at a node when the position of the node is valid, the payload gives a
  move there and the notation of the move is not \<open>--\<close>; it is new when no child of the node has
  its notation.\<close>

definition moveLegal :: "'pos rules \<Rightarrow> makeMove_args \<Rightarrow> node \<Rightarrow> bool" where
  "moveLegal R args node =
     (case positionFromFen R (fen (info node)) of
        None \<Rightarrow> False
      | Some pos \<Rightarrow>
          (case resolveMove R pos (payload args) of
             None \<Rightarrow> False
           | Some mv \<Rightarrow> makeSan R pos mv \<noteq> ''--''))"

definition moveSan :: "'pos rules \<Rightarrow> makeMove_args \<Rightarrow> node \<Rightarrow> string" where
  "moveSan R args node =
     (case positionFromFen R (fen (info node)) of
        None \<Rightarrow> ''--''
      | Some pos \<Rightarrow>
          (case resolveMove R pos (payload args) of
             None \<Rightarrow> ''--''
           | Some mv \<Rightarrow> makeSan R pos mv))"

definition moveFen :: "'pos rules \<Rightarrow> makeMove_args \<Rightarrow> node \<Rightarrow> string" where
  "moveFen R args node =
     (case positionFromFen R (fen (info node)) of
        None \<Rightarrow> []
      | Some pos \<Rightarrow>
          (case resolveMove R pos (payload args) of
             None \<Rightarrow> []
           | Some mv \<Rightarrow> makeFen R (play R pos mv)))"

text \<open>The move ends the game: \<^verbatim>\<open>pos.isEnd()\<close> after \<^verbatim>\<open>pos.play(move)\<close>.\<close>

definition moveEnds :: "'pos rules \<Rightarrow> makeMove_args \<Rightarrow> node \<Rightarrow> bool" where
  "moveEnds R args node =
     (case positionFromFen R (fen (info node)) of
        None \<Rightarrow> False
      | Some pos \<Rightarrow>
          (case resolveMove R pos (payload args) of
             None \<Rightarrow> False
           | Some mv \<Rightarrow> isEnd R (play R pos mv)))"

definition moveExists :: "'pos rules \<Rightarrow> makeMove_args \<Rightarrow> node \<Rightarrow> bool" where
  "moveExists R args node =
     (findIndex (\<lambda>n. san (info n) = Some (moveSan R args node)) (children node) \<noteq> -1)"

text \<open>A sequence of calls of \<^verbatim>\<open>makeMove\<close>, each on the state the one before returned.\<close>

fun applyMoves :: "'pos rules \<Rightarrow> makeMove_args list \<Rightarrow> tree_state \<Rightarrow> failure + tree_state" where
  "applyMoves R [] state = Inr state"
| "applyMoves R (a # as) state =
     (case makeMove R a state of
        Inl e \<Rightarrow> Inl e
      | Inr state' \<Rightarrow> applyMoves R as state')"

text \<open>Every move of the sequence is legal at the node where the cursor is when it is made.\<close>

fun legalMoves :: "'pos rules \<Rightarrow> makeMove_args list \<Rightarrow> tree_state \<Rightarrow> bool" where
  "legalMoves R [] state = True"
| "legalMoves R (a # as) state =
     (moveLegal R a (getNodeAtPath (root state) (position state))
      \<and> (case makeMove R a state of
           Inl e \<Rightarrow> False
         | Inr state' \<Rightarrow> legalMoves R as state'))"

text \<open>Every call of the sequence takes the fast path: the move exists as a child and the call
  returns the state it was given with the index of that child appended to the cursor.\<close>

fun allFastPath :: "'pos rules \<Rightarrow> makeMove_args list \<Rightarrow> tree_state \<Rightarrow> bool" where
  "allFastPath R [] state = True"
| "allFastPath R (a # as) state =
     (let node = getNodeAtPath (root state) (position state);
          idx = findIndex (\<lambda>n. san (info n) = Some (moveSan R a node)) (children node)
      in idx \<noteq> -1
         \<and> makeMove R a state = Inr (state\<lparr>position := position state @ [nat idx]\<rparr>)
         \<and> allFastPath R as (state\<lparr>position := position state @ [nat idx]\<rparr>))"

text \<open>Two trees agree above and along a path: the nodes on the path have the same fields in
  both, and the nodes strictly above its end have children with the same fields.\<close>

fun sameSpine :: "node \<Rightarrow> node \<Rightarrow> nat list \<Rightarrow> bool" where
  "sameSpine r r' [] = (info r' = info r)"
| "sameSpine r r' (i # path) =
     (info r' = info r \<and> map info (children r') = map info (children r)
      \<and> i < length (children r) \<and> sameSpine (children r ! i) (children r' ! i) path)"

text \<open>The value of the draw condition on a state whose cursor resolves, in terms of the line
  of the cursor. The entry of \<^verbatim>\<open>isThreeFoldRepetition\<close> for the root is always the stripped
  \<^verbatim>\<open>INITIAL_FEN\<close>.\<close>

definition drawValue :: "bool \<Rightarrow> node \<Rightarrow> nat list \<Rightarrow> string \<Rightarrow> bool" where
  "drawValue changeHeaders' r p newFen =
     ((changeHeaders'
       \<and> 2 \<le> (if stripFen INITIAL_FEN = stripFen newFen then 1 else 0)
               + occurrences newFen (nodesAlong r p))
      \<or> 100 \<le> quietHalfmoves (nodesAlong r p))"


text \<open>
  A batch of moves is legal for \<^verbatim>\<open>makeMoves\<close> on a state when every string gives a move in
  the position object as played so far and, for every move that is added, the position of the
  node at the cursor is valid, the notation of the move there is not \<open>--\<close> and is the notation
  the position object gives it (the position read from the FEN of a node and the position
  object played up to that node denote a move alike), and \<^verbatim>\<open>makeMoveOnTree\<close> does not fail.
\<close>

fun slowLegal ::
  "'pos rules \<Rightarrow> bool \<Rightarrow> bool \<Rightarrow> string list \<Rightarrow> 'pos \<Rightarrow> tree_state \<Rightarrow> bool" where
  "slowLegal R mainline' changeHeaders' [] pos mutableState = True"
| "slowLegal R mainline' changeHeaders' (s # rest) pos mutableState =
     (case parseSanOrUci R pos s of
        None \<Rightarrow> False
      | Some m \<Rightarrow>
          (case positionFromFen R
                  (fen (info (getNodeAtPath (root mutableState) (position mutableState)))) of
             None \<Rightarrow> False
           | Some nodePos \<Rightarrow>
               makeSan R nodePos m \<noteq> ''--'' \<and> makeSan R pos m = makeSan R nodePos m
               \<and> (case makeMoveOnTree R mutableState m False True changeHeaders' mainline' None of
                    Inl e \<Rightarrow> False
                  | Inr mutableState' \<Rightarrow>
                      slowLegal R mainline' changeHeaders' rest (play R pos m) mutableState')))"

definition batchLegal ::
  "'pos rules \<Rightarrow> string list \<Rightarrow> bool option \<Rightarrow> bool option \<Rightarrow> tree_state \<Rightarrow> bool" where
  "batchLegal R payload' mainline' changeHeaders' state =
     (let curNode = getNodeAtPath (root state) (position state)
      in case positionFromFen R (fen (info curNode)) of
           None \<Rightarrow> False
         | Some pos \<Rightarrow>
             (case fastLoop R payload' pos (position state) curNode of
                None \<Rightarrow> False
              | Some (rest, pos', position', curNode') \<Rightarrow>
                  (case clonePath (next_oid state) (root state) position' of
                     (nx, newRoot) \<Rightarrow>
                       slowLegal R (mainline' = Some True) (changeHeaders' \<noteq> Some False) rest pos'
                         (state\<lparr>root := newRoot, position := position', dirty := True,
                                next_oid := nx\<rparr>))))"

text \<open>The batch takes the fast path on a state: the first loop runs to the end of the batch,
  so \<^verbatim>\<open>makeMoves\<close> returns the state it was given with the cursor the loop has reached.\<close>

definition batchFastPath :: "'pos rules \<Rightarrow> string list \<Rightarrow> tree_state \<Rightarrow> bool" where
  "batchFastPath R payload' state =
     (let curNode = getNodeAtPath (root state) (position state)
      in case positionFromFen R (fen (info curNode)) of
           None \<Rightarrow> False
         | Some pos \<Rightarrow>
             (case fastLoop R payload' pos (position state) curNode of
                None \<Rightarrow> False
              | Some (rest, pos', position', curNode') \<Rightarrow> rest = []))"

section \<open>Encoding a tree as PGN\<close>

text \<open>
  What \<^verbatim>\<open>getMoveText\<close> needs from outside the sources: the annotation tables, \<^verbatim>\<open>formatScore\<close> of
  \<^verbatim>\<open>./score\<close>, and the notation of JavaScript for a number that is no integer (\<open>showNumber\<close>).
  \<^verbatim>\<open>makeClk\<close> is a parameter as well: it formats a floating-point number of seconds with
  \<^verbatim>\<open>toLocaleString\<close>.
\<close>

record print_env =
  tables :: annotation_tables
  formatScore :: "score_value \<Rightarrow> string"
  showNumber :: "real \<Rightarrow> string"
  makeClk :: "real \<Rightarrow> string"

record moveText_options =
  mt_glyphs :: bool
  mt_comments :: bool
  mt_extraMarkups :: bool
  mt_isFirst :: "bool option"

definition dquote :: char where
  "dquote = CHR 0x22"

definition newline :: char where
  "newline = CHR 0x0A"

text \<open>\<^verbatim>\<open>parts.join(sep)\<close>.\<close>

fun joinWith :: "string \<Rightarrow> string list \<Rightarrow> string" where
  "joinWith sep [] = []"
| "joinWith sep [x] = x"
| "joinWith sep (x # y # ys) = x @ sep @ joinWith sep (y # ys)"

text \<open>The results of computations that run one after the other, the first failure ending
  them: their values in order, or that failure.\<close>

fun allResults :: "(failure + 'a) list \<Rightarrow> failure + 'a list" where
  "allResults [] = Inr []"
| "allResults (Inl e # rs) = Inl e"
| "allResults (Inr x # rs) = (case allResults rs of Inl e \<Rightarrow> Inl e | Inr xs \<Rightarrow> Inr (x # xs))"

definition concatResults :: "(failure + string) list \<Rightarrow> failure + string" where
  "concatResults rs = (case allResults rs of Inl e \<Rightarrow> Inl e | Inr xs \<Rightarrow> Inr (concat xs))"

definition toUpperCase :: "char \<Rightarrow> char" where
  "toUpperCase c =
     (if 97 \<le> (of_char c :: nat) \<and> (of_char c :: nat) \<le> 122
      then char_of ((of_char c :: nat) - 32) else c)"

text \<open>\<^verbatim>\<open>(shape.brush ?? "G")[0].toUpperCase()\<close>: the first character of an empty string is
  \<^verbatim>\<open>undefined\<close>, and the call on it a \<^verbatim>\<open>TypeError\<close>.\<close>

definition brushLetter :: "drawshape \<Rightarrow> failure + string" where
  "brushLetter shape =
     (case (case brush shape of None \<Rightarrow> ''G'' | Some b \<Rightarrow> b) of
        [] \<Rightarrow> Inl TypeError
      | c # _ \<Rightarrow> Inr [toUpperCase c])"

text \<open>The bundled comment of \<^verbatim>\<open>getMoveText\<close>: the text between the braces.\<close>

definition markupContent :: "print_env \<Rightarrow> node_info \<Rightarrow> moveText_options \<Rightarrow> failure + string" where
  "markupContent E tree opt =
     (let evalText =
            (if mt_extraMarkups opt then
               (case score tree of
                  None \<Rightarrow> []
                | Some sc \<Rightarrow>
                    (case svalue sc of
                       Cp v \<Rightarrow> ''[%eval '' @ formatScore E (Cp v) @ ''] ''
                     | Mate v \<Rightarrow> ''[%eval #'' @ showNumber E v @ ''] ''))
               @ (case clock tree of
                    None \<Rightarrow> []
                  | Some c \<Rightarrow> ''[%clk '' @ makeClk E c @ ''] '')
             else []);
          squares = filter (\<lambda>shape. dest shape = None) (shapes tree);
          arrows = filter (\<lambda>shape. dest shape \<noteq> None) (shapes tree);
          squareText =
            (if mt_extraMarkups opt \<and> shapes tree \<noteq> [] \<and> squares \<noteq> [] then
               (case allResults (map (\<lambda>shape.
                         case brushLetter shape of Inl e \<Rightarrow> Inl e
                         | Inr l \<Rightarrow> Inr (l @ orig shape)) squares) of
                  Inl e \<Rightarrow> Inl e
                | Inr xs \<Rightarrow> Inr (''[%csl '' @ joinWith '','' xs @ '']''))
             else Inr []);
          arrowText =
            (if mt_extraMarkups opt \<and> shapes tree \<noteq> [] \<and> arrows \<noteq> [] then
               (case allResults (map (\<lambda>shape.
                         case brushLetter shape of Inl e \<Rightarrow> Inl e
                         | Inr l \<Rightarrow> Inr (l @ orig shape @ the (dest shape))) arrows) of
                  Inl e \<Rightarrow> Inl e
                | Inr xs \<Rightarrow> Inr (''[%cal '' @ joinWith '','' xs @ '']''))
             else Inr []);
          commentText = (if mt_comments opt \<and> comment tree \<noteq> [] then comment tree else [])
      in concatResults [Inr ''{'', Inr evalText, squareText, arrowText, Inr commentText, Inr ''} ''])"

text \<open>\<^verbatim>\<open>getMoveText\<close>. \<^verbatim>\<open>Math.ceil(halfMoves / 2)\<close> is \<open>(halfMoves + 1) div 2\<close> on the integers;
  \<^verbatim>\<open>if (tree.san)\<close> fails for \<^verbatim>\<open>null\<close> and for the empty string.\<close>

definition getMoveText :: "print_env \<Rightarrow> node_info \<Rightarrow> moveText_options \<Rightarrow> failure + string" where
  "getMoveText E tree opt =
     (let isBlack = (halfMoves tree mod 2 = 0);
          moveNumber = (halfMoves tree + 1) div 2;
          moveText =
            (case san tree of
               None \<Rightarrow> []
             | Some [] \<Rightarrow> []
             | Some s \<Rightarrow>
                 (if isBlack
                  then (if mt_isFirst opt = Some True then showInt moveNumber @ ''... '' else [])
                  else showInt moveNumber @ ''. '')
                 @ s
                 @ (if mt_glyphs opt
                    then concat (map (\<lambda>annotation.
                           if annotation = [] then []
                           else if isBasicAnnotation (tables E) annotation then annotation
                           else '' $'' @ showInt (ann_nag (tables E) annotation))
                         (annotations tree))
                    else [])
                 @ '' '')
      in if mt_comments opt \<or> mt_extraMarkups opt then
           (case markupContent E tree opt of
              Inl e \<Rightarrow> Inl e
            | Inr content \<Rightarrow>
                Inr (if content \<noteq> ''{} '' then moveText @ content else moveText))
         else Inr moveText)"

text \<open>\<^verbatim>\<open>headersToPGN\<close>; \<^verbatim>\<open>x || d\<close> takes \<open>d\<close> for a missing and for an empty string, \<^verbatim>\<open>if (x)\<close>
  fails for a missing or empty string and for the number 0.\<close>

definition orElse :: "string \<Rightarrow> string \<Rightarrow> string" where
  "orElse s d = (if s = [] then d else s)"

definition optOrElse :: "string option \<Rightarrow> string \<Rightarrow> string" where
  "optOrElse s d = (case s of None \<Rightarrow> d | Some x \<Rightarrow> orElse x d)"

definition tagLine :: "string \<Rightarrow> string \<Rightarrow> string" where
  "tagLine tag v = ''['' @ tag @ '' '' @ [dquote] @ v @ [dquote] @ '']'' @ [newline]"

definition optTagLine :: "string \<Rightarrow> string option \<Rightarrow> string" where
  "optTagLine tag v = (case v of None \<Rightarrow> [] | Some x \<Rightarrow> if x = [] then [] else tagLine tag x)"

definition headersToPGN :: "game_headers \<Rightarrow> string" where
  "headersToPGN game =
     tagLine ''Event'' (orElse (event game) ''?'')
     @ tagLine ''Site'' (orElse (site game) ''?'')
     @ tagLine ''Date'' (optOrElse (date game) ''????.??.??'')
     @ tagLine ''Round'' (optOrElse (hround game) ''?'')
     @ tagLine ''White'' (orElse (white game) ''?'')
     @ tagLine ''Black'' (orElse (black game) ''?'')
     @ tagLine ''Result'' (result game)
     @ (case white_elo game of None \<Rightarrow> []
        | Some e \<Rightarrow> if e = 0 then [] else tagLine ''WhiteElo'' (showInt e))
     @ (case black_elo game of None \<Rightarrow> []
        | Some e \<Rightarrow> if e = 0 then [] else tagLine ''BlackElo'' (showInt e))
     @ (case start game of None \<Rightarrow> []
        | Some p \<Rightarrow> if p = [] then []
                    else tagLine ''Start'' (''['' @ joinWith '','' (map showNat p) @ '']''))
     @ optTagLine ''Orientation'' (orientation game)
     @ optTagLine ''TimeControl'' (time_control game)
     @ optTagLine ''WhiteTimeControl'' (white_time_control game)
     @ optTagLine ''BlackTimeControl'' (black_time_control game)
     @ optTagLine ''ECO'' (eco game)
     @ optTagLine ''Variant'' (variant game)"

record pgn_options =
  pgn_headers :: "game_headers option"
  pgn_glyphs :: bool
  pgn_comments :: bool
  pgn_variations :: bool
  pgn_extraMarkups :: bool
  pgn_root :: bool
  pgn_path :: "nat list option"

definition moveTextOptions :: "pgn_options \<Rightarrow> bool option \<Rightarrow> moveText_options" where
  "moveTextOptions opts isFirst =
     \<lparr>mt_glyphs = pgn_glyphs opts, mt_comments = pgn_comments opts,
      mt_extraMarkups = pgn_extraMarkups opts, mt_isFirst = isFirst\<rparr>"

text \<open>
  \<^verbatim>\<open>getPGN\<close>. The stack of the loop never holds more than one frame: an iteration pops one and
  pushes at most one, so the loop is the recursion \<open>pgnLoop\<close> down one line of the tree, which
  returns the parts pushed from a frame on, joined. A child index beyond the children gives
  \<^verbatim>\<open>undefined\<close>, and \<^verbatim>\<open>getMoveText\<close> on it is a \<^verbatim>\<open>TypeError\<close>. The call of \<^verbatim>\<open>getPGN\<close> for a
  variation has no headers, \<^verbatim>\<open>root: false\<close> and no path.
\<close>

function getPGN :: "print_env \<Rightarrow> node \<Rightarrow> pgn_options \<Rightarrow> failure + string"
  and pgnLoop :: "print_env \<Rightarrow> pgn_options \<Rightarrow> node \<Rightarrow> bool \<Rightarrow> nat list option \<Rightarrow> failure + string"
where
  "getPGN E tree opts =
     (if pgn_path opts = Some [] then Inr []
      else
        (case concatResults
                [Inr (case pgn_headers opts of None \<Rightarrow> [] | Some h \<Rightarrow> headersToPGN h),
                 Inr (if pgn_root opts \<and> fen (info tree) \<noteq> INITIAL_FEN
                      then ''[SetUp '' @ [dquote] @ ''1'' @ [dquote] @ '']'' @ [newline]
                           @ ''[FEN '' @ [dquote] @ fen (info tree) @ [dquote] @ '']'' @ [newline]
                      else []),
                 Inr [newline],
                 pgnLoop E opts tree (pgn_root opts) (pgn_path opts),
                 Inr (case pgn_headers opts of
                        None \<Rightarrow> []
                      | Some h \<Rightarrow> if pgn_root opts then '' '' @ result h else [])] of
           Inl e \<Rightarrow> Inl e
         | Inr s \<Rightarrow> Inr (trim s)))"
| "pgnLoop E opts current isRoot currentPath =
     (if currentPath = Some [] then Inr []
      else
        concatResults
          ((if isRoot then getMoveText E (info current) (moveTextOptions opts None) else Inr [])
           # (if children current = [] then []
              else
                (let childIdx = (case currentPath of None \<Rightarrow> 0 | Some p \<Rightarrow> hd p)
                 in if childIdx \<ge> length (children current) then [Inl TypeError]
                    else
                      getMoveText E (info (children current ! childIdx))
                        (moveTextOptions opts (Some isRoot))
                      # (if currentPath = None \<and> pgn_variations opts
                         then map (\<lambda>variation.
                                concatResults
                                  [Inr '' ('',
                                   getMoveText E (info variation) (moveTextOptions opts (Some True)),
                                   Inr '' '',
                                   getPGN E variation
                                     (opts\<lparr>pgn_headers := None, pgn_root := False,
                                            pgn_path := None\<rparr>),
                                   Inr '') ''])
                              (tl (children current))
                         else [])
                      @ [pgnLoop E opts (children current ! childIdx) False
                           (map_option tl currentPath)]))))"
  by pat_completeness auto
termination
proof (relation "measure (\<lambda>x. case x of
          Inl (E, tree, opts) \<Rightarrow> 2 * size tree + 1
        | Inr (E, opts, current, isRoot, currentPath) \<Rightarrow> 2 * size current)")
  show "wf (measure (\<lambda>x. case x of
          Inl (E, tree, opts) \<Rightarrow> 2 * size tree + 1
        | Inr (E, opts, current, isRoot, currentPath) \<Rightarrow> 2 * size (current :: node)))"
    by simp
next
  fix E :: print_env and tree :: node and opts :: pgn_options
  show "(Inr (E, opts, tree, pgn_root opts, pgn_path opts), Inl (E, tree, opts))
      \<in> measure (\<lambda>x. case x of
          Inl (E, tree, opts) \<Rightarrow> 2 * size tree + 1
        | Inr (E, opts, current, isRoot, currentPath) \<Rightarrow> 2 * size current)"
    by simp
next
  fix E :: print_env and opts :: pgn_options and current :: node and isRoot :: bool
    and currentPath :: "nat list option" and x :: nat and z :: node
  assume "z \<in> set (tl (children current))"
  then have "z \<in> set (children current)" by (cases "children current") auto
  then have "size z < size current"
    by (cases current) (auto simp: less_Suc_eq_le size_list_estimation')
  then show "(Inl (E, z, opts\<lparr>pgn_headers := None, pgn_root := False, pgn_path := None\<rparr>),
       Inr (E, opts, current, isRoot, currentPath))
      \<in> measure (\<lambda>x. case x of
          Inl (E, tree, opts) \<Rightarrow> 2 * size tree + 1
        | Inr (E, opts, current, isRoot, currentPath) \<Rightarrow> 2 * size current)"
    by simp
next
  fix E :: print_env and opts :: pgn_options and current :: node and isRoot :: bool
    and currentPath :: "nat list option" and x :: nat
  assume "\<not> length (children current) \<le> x"
  then have "children current ! x \<in> set (children current)" by simp
  then have "size (children current ! x) < size current"
    by (cases current) (auto simp: less_Suc_eq_le size_list_estimation')
  then show "(Inr (E, opts, children current ! x, False, map_option tl currentPath),
       Inr (E, opts, current, isRoot, currentPath))
      \<in> measure (\<lambda>x. case x of
          Inl (E, tree, opts) \<Rightarrow> 2 * size tree + 1
        | Inr (E, opts, current, isRoot, currentPath) \<Rightarrow> 2 * size current)"
    by simp
qed

declare getPGN.simps [simp del] pgnLoop.simps [simp del]

text \<open>The store action \<^verbatim>\<open>copyVariationPgn\<close>: the text it writes to the clipboard.\<close>

definition copyVariationPgn :: "print_env \<Rightarrow> nat list \<Rightarrow> tree_state \<Rightarrow> failure + string" where
  "copyVariationPgn E path state =
     getPGN E (root state)
       \<lparr>pgn_headers = None, pgn_glyphs = True, pgn_comments = False, pgn_variations = False,
        pgn_extraMarkups = False, pgn_root = True, pgn_path = Some path\<rparr>"

text \<open>A printing environment for the examples: the basic annotations; the examples have no
  scores and no clocks.\<close>

definition plainPrinting :: print_env where
  "plainPrinting =
     \<lparr>tables = basicAnnotations, formatScore = (\<lambda>v. []), showNumber = (\<lambda>v. []),
      makeClk = (\<lambda>c. [])\<rparr>"

text \<open>The scenario of the specification: from the default tree, \<^verbatim>\<open>makeMove\<close> with \<open>e4\<close> as main
  line, \<open>e5\<close> not as main line, \<open>Nf3\<close> as main line.\<close>

definition moveArgs :: "string \<Rightarrow> bool \<Rightarrow> makeMove_args" where
  "moveArgs s m = \<lparr>payload = PSan s, changePosition = None, mainline = Some m, arg_clock = None,
                   changeHeaders = None\<rparr>"

definition scenarioMoves :: "makeMove_args list" where
  "scenarioMoves = [moveArgs ''e4'' True, moveArgs ''e5'' False, moveArgs ''Nf3'' True]"

section \<open>Decoding a token stream\<close>

text \<open>The tokens of the lexer (\<^verbatim>\<open>commands.lexPgn\<close>, outside the sources); a token of a type the
  decoder does not name is \<open>OtherToken\<close>.\<close>

datatype token =
    Header string string
  | San string
  | Nag string
  | Comment string
  | ParenOpen
  | ParenClose
  | Outcome string
  | OtherToken

text \<open>
  The variables of the loop of \<^verbatim>\<open>innerParsePGN\<close>: the tree under construction, the references
  \<^verbatim>\<open>root\<close> (the node of the last move) and \<^verbatim>\<open>prevNode\<close> (its parent), which are paths into the
  tree here, the running position and the position before the last move. Nodes are only ever
  appended behind their siblings, so a path keeps naming the same node.
\<close>

record 'pos parse_state =
  ptree :: tree_state
  pcur :: "nat list"
  pprev :: "nat list"
  ppos :: 'pos
  pprevPos :: 'pos

text \<open>The scan for the matching \<^verbatim>\<open>ParenClose\<close>; reading a token beyond the stream is a
  \<^verbatim>\<open>TypeError\<close>.\<close>

function findClose :: "token list \<Rightarrow> nat \<Rightarrow> nat \<Rightarrow> nat \<Rightarrow> failure + nat" where
  "findClose tokens end i subvariations =
     (if i < end then
        (if i \<ge> length tokens then Inl TypeError
         else if tokens ! i = ParenOpen then findClose tokens end (i + 1) (subvariations + 1)
         else if tokens ! i = ParenClose then
           (if subvariations = 0 then Inr i
            else findClose tokens end (i + 1) (subvariations - 1))
         else findClose tokens end (i + 1) subvariations)
      else Inr i)"
  by pat_completeness auto
termination
  by (relation "measure (\<lambda>(tokens, end, i, subvariations). end - i)") auto

declare findClose.simps [simp del]

text \<open>The state before the loop, for a position \<open>pos\<close>: \<^verbatim>\<open>defaultTree(fen, pos.turn)\<close> with the
  ply counter of the root set.\<close>

definition startParse :: "'pos rules \<Rightarrow> nat \<Rightarrow> string \<Rightarrow> int \<Rightarrow> 'pos \<Rightarrow> 'pos parse_state" where
  "startParse R nx fen' halfMoves' pos =
     (let tree = defaultTree R nx (Some fen') (Some (turn R pos))
      in \<lparr>ptree = tree\<lparr>root := modifyInfo
                      (\<lambda>i. i\<lparr>halfMoves := (if halfMoves' = 0 \<and> turn R pos = Black
                                            then halfMoves' + 1 else halfMoves')\<rparr>)
                      (root tree)\<rparr>,
          pcur = [], pprev = [], ppos = pos, pprevPos = pos\<rparr>)"

text \<open>The branches of the loop that change the tree.\<close>

definition applyComment :: "'pos rules \<Rightarrow> string \<Rightarrow> node_info \<Rightarrow> node_info" where
  "applyComment R v i =
     (let c = parseComment R v;
          i1 = (case cevaluation c of
                  None \<Rightarrow> i
                | Some ev \<Rightarrow> i\<lparr>score := Some \<lparr>svalue = ev, wdl = None\<rparr>\<rparr>);
          i2 = (if cshapes c \<noteq> [] then i1\<lparr>shapes := shapes i1 @ cshapes c\<rparr> else i1);
          i3 = (case cclock c of
                  None \<Rightarrow> i2
                | Some t \<Rightarrow> if t = 0 then i2 else i2\<lparr>clock := Some t\<rparr>)
      in i3\<lparr>comment := ctext c\<rparr>)"

definition applyNag :: "annotation_tables \<Rightarrow> string \<Rightarrow> node_info \<Rightarrow> node_info" where
  "applyNag A v i =
     i\<lparr>annotations := sort_key (ann_nag A)
         (annotations i @ [case nag_info A v of None \<Rightarrow> [] | Some a \<Rightarrow> a])\<rparr>"

definition pushMove :: "'pos rules \<Rightarrow> move \<Rightarrow> 'pos parse_state \<Rightarrow> 'pos parse_state" where
  "pushMove R mv st =
     (let tree = ptree st;
          node = getNodeAtPath (root tree) (pcur st);
          san' = makeSan R (ppos st) mv;
          pos' = play R (ppos st) mv;
          newTree = createNode (next_oid tree) (makeFen R pos') mv san'
                      (halfMoves (info node) + 1) None
      in st\<lparr>ptree := tree\<lparr>root := modifyNodeAtPath (modifyChildren (\<lambda>cs. cs @ [newTree]))
                                    (root tree) (pcur st),
                          next_oid := Suc (next_oid tree)\<rparr>,
            pprev := pcur st,
            pcur := pcur st @ [length (children node)],
            ppos := pos',
            pprevPos := ppos st\<rparr>)"

definition attachVariation :: "tree_state \<Rightarrow> 'pos parse_state \<Rightarrow> 'pos parse_state" where
  "attachVariation newTree st =
     st\<lparr>ptree := (ptree st)
          \<lparr>root := (case children (root newTree) of
                      [] \<Rightarrow> root (ptree st)
                    | v # _ \<Rightarrow> modifyNodeAtPath (modifyChildren (\<lambda>cs. cs @ [v]))
                                (root (ptree st)) (pprev st)),
           next_oid := next_oid newTree\<rparr>\<rparr>"

text \<open>
  The loop of \<^verbatim>\<open>innerParsePGN\<close>, from index \<open>i\<close> to \<open>end\<close>; it returns the state and the index
  where it stopped. At a \<^verbatim>\<open>ParenOpen\<close> the recursive call
  \<^verbatim>\<open>innerParsePGN(tokens, prevNode.fen, root.halfMoves - 1, varStart, i, prevPos)\<close> is the loop on
  a new state, between the parentheses.
\<close>

function parseLoop ::
  "'pos rules \<Rightarrow> annotation_tables \<Rightarrow> token list \<Rightarrow> nat \<Rightarrow> nat \<Rightarrow> 'pos parse_state
     \<Rightarrow> failure + ('pos parse_state \<times> nat)" where
  "parseLoop R A tokens end i st =
     (if i < end then
        (if i \<ge> length tokens then Inl TypeError
         else
           (case tokens ! i of
              Comment v \<Rightarrow>
                parseLoop R A tokens end (i + 1)
                  (st\<lparr>ptree := (ptree st)\<lparr>root := modifyNodeAtPath (modifyInfo (applyComment R v))
                                                    (root (ptree st)) (pcur st)\<rparr>\<rparr>)
            | ParenOpen \<Rightarrow>
                (case findClose tokens end (i + 1) 0 of
                   Inl e \<Rightarrow> Inl e
                 | Inr j \<Rightarrow>
                     (case parseLoop R A tokens j (i + 1)
                             (startParse R (next_oid (ptree st))
                                (fen (info (getNodeAtPath (root (ptree st)) (pprev st))))
                                (halfMoves (info (getNodeAtPath (root (ptree st)) (pcur st))) - 1)
                                (pprevPos st)) of
                        Inl e \<Rightarrow> Inl e
                      | Inr (vst, k) \<Rightarrow>
                          parseLoop R A tokens end (j + 1) (attachVariation (ptree vst) st)))
            | ParenClose \<Rightarrow> parseLoop R A tokens end (i + 1) st
            | Nag v \<Rightarrow>
                parseLoop R A tokens end (i + 1)
                  (st\<lparr>ptree := (ptree st)\<lparr>root := modifyNodeAtPath (modifyInfo (applyNag A v))
                                                    (root (ptree st)) (pcur st)\<rparr>\<rparr>)
            | San v \<Rightarrow>
                (case (case parseSan R (ppos st) v of
                         None \<Rightarrow> parseUci R v
                       | Some m \<Rightarrow> Some m) of
                   None \<Rightarrow> parseLoop R A tokens end (i + 1) st
                 | Some mv \<Rightarrow> parseLoop R A tokens end (i + 1) (pushMove R mv st))
            | Outcome v \<Rightarrow> Inr (st, i)
            | Header tag v \<Rightarrow> parseLoop R A tokens end (i + 1) st
            | OtherToken \<Rightarrow> parseLoop R A tokens end (i + 1) st))
      else Inr (st, i))"
  by pat_completeness auto
termination
proof (relation "measure (\<lambda>(R, A, tokens, end, i, st). end - i)")
  show "wf (measure (\<lambda>(R, A, tokens, end, i, st). end - i))"
    by simp
next
  fix tokens :: "token list" and "end" i j :: nat
  assume lt: "i < end" and fc: "findClose tokens end (i + 1) 0 = Inr j"
  have bound: "findClose ts e a s = Inr b \<Longrightarrow> a \<le> b \<and> b \<le> max a e" for ts e a s b
  proof (induction ts e a s rule: findClose.induct)
    case (1 ts e a s)
    show ?case
    proof (cases "a < e")
      case False
      with "1.prems" show ?thesis by (simp add: findClose.simps [of ts e a s])
    next
      case True
      note lt = this
      show ?thesis
      proof (cases "a \<ge> length ts")
        case True
        with lt "1.prems" show ?thesis by (simp add: findClose.simps [of ts e a s])
      next
        case False
        note inr = this
        show ?thesis
        proof (cases "ts ! a = ParenOpen")
          case True
          with lt inr "1.prems" have "findClose ts e (a + 1) (s + 1) = Inr b"
            by (simp add: findClose.simps [of ts e a s])
          with "1.IH"(1) lt inr True show ?thesis by fastforce
        next
          case False
          note no = this
          show ?thesis
          proof (cases "ts ! a = ParenClose")
            case True
            note pc = this
            show ?thesis
            proof (cases "s = 0")
              case True
              with lt inr no pc "1.prems" show ?thesis
                by (simp add: findClose.simps [of ts e a 0])
            next
              case False
              with lt inr no pc "1.prems" have "findClose ts e (a + 1) (s - 1) = Inr b"
                by (simp add: findClose.simps [of ts e a s])
              with "1.IH"(2) lt inr no pc False show ?thesis by fastforce
            qed
          next
            case False
            with lt inr no "1.prems" have "findClose ts e (a + 1) s = Inr b"
              by (simp add: findClose.simps [of ts e a s])
            with "1.IH"(3) lt inr no False show ?thesis by fastforce
          qed
        qed
      qed
    qed
  qed
  from bound [OF fc] lt have j: "i + 1 \<le> j" "j \<le> end" by simp_all
  fix R :: "'pos rules" and A :: annotation_tables and st st' :: "'pos parse_state"
  show "((R, A, tokens, j, i + 1, st'), (R, A, tokens, end, i, st))
          \<in> measure (\<lambda>(R, A, tokens, end, i, st). end - i)"
    using j lt by simp
  show "((R, A, tokens, end, j + 1, st'), (R, A, tokens, end, i, st))
          \<in> measure (\<lambda>(R, A, tokens, end, i, st). end - i)"
    using j lt by simp
qed auto

declare parseLoop.simps [simp del]

text \<open>\<^verbatim>\<open>innerParsePGN\<close>. \<^verbatim>\<open>parseFen(fen).unwrap()\<close> throws when the FEN does not parse; a setup
  that is no legal position gives the default tree and the end index.\<close>

definition innerParsePGN ::
  "'pos rules \<Rightarrow> annotation_tables \<Rightarrow> nat \<Rightarrow> token list \<Rightarrow> string \<Rightarrow> int \<Rightarrow> nat \<Rightarrow> nat option
     \<Rightarrow> 'pos option \<Rightarrow> failure + (tree_state \<times> nat)" where
  "innerParsePGN R A nx tokens fen' halfMoves' startIndex endIndex initialPos =
     (let end = (case endIndex of None \<Rightarrow> length tokens | Some e \<Rightarrow> e);
          run = (\<lambda>pos. case parseLoop R A tokens end startIndex
                               (startParse R nx fen' halfMoves' pos) of
                         Inl e \<Rightarrow> Inl e
                       | Inr (st, i) \<Rightarrow> Inr (ptree st, i))
      in case initialPos of
           Some pos \<Rightarrow> run pos
         | None \<Rightarrow>
             (if \<not> parseFen R fen' then Inl UnwrapError
              else (case fromSetup R fen' of
                      None \<Rightarrow> Inr (defaultTree R nx (Some fen') None, end)
                    | Some pos \<Rightarrow> run pos)))"

text \<open>The tokens of \<^verbatim>\<open>1. e4 e5 (1... c5 2. Nf3) 2. Nf3 *\<close>: the lexer gives no token for a move
  number.\<close>

definition sicilianTokens :: "token list" where
  "sicilianTokens =
     [San ''e4'', San ''e5'', ParenOpen, San ''c5'', San ''Nf3'', ParenClose, San ''Nf3'',
      Outcome ''*'']"

text \<open>The ply counter of every child is that of its parent plus 1, throughout a tree.\<close>

fun pliesConsecutive :: "node \<Rightarrow> bool" where
  "pliesConsecutive (Node i d cs) =
     (\<forall>c \<in> set cs. halfMoves (info c) = halfMoves d + 1 \<and> pliesConsecutive c)"

text \<open>The notations along the main line of a tree, below its root, and the number of nodes of
  a tree.\<close>

fun mainlineSans :: "node \<Rightarrow> string option list" where
  "mainlineSans (Node i d []) = []"
| "mainlineSans (Node i d (c # cs)) = san (info c) # mainlineSans c"

fun nodeCount :: "node \<Rightarrow> nat" where
  "nodeCount (Node i d cs) = Suc (sum_list (map nodeCount cs))"

section \<open>Paths, clones and edits: the frame of a field edit\<close>

lemma isPrefix_Nil [simp]: "isPrefix [] p"
  by (simp add: isPrefix_def)

lemma isPrefix_Cons_Nil [simp]: "\<not> isPrefix (a # q) []"
  by (simp add: isPrefix_def)

lemma isPrefix_Cons_Cons [simp]: "isPrefix (a # q) (b # p) = (a = b \<and> isPrefix q p)"
  by (auto simp: isPrefix_def)

lemma isPrefix_resolved: "isPrefix (resolved r p) p"
  by (induction p arbitrary: r) auto

lemma clonePath_root:
  "oid (snd (clonePath nx r p)) = nx \<and> info (snd (clonePath nx r p)) = info r
   \<and> length (children (snd (clonePath nx r p))) = length (children r)"
  by (cases p) (auto split: prod.splits)

lemma clonePath_children:
  "children (snd (clonePath nx r [])) = children r"
  "idx \<ge> length (children r) \<Longrightarrow> children (snd (clonePath nx r (idx # p))) = children r"
  "idx < length (children r) \<Longrightarrow> children (snd (clonePath nx r (idx # p)))
      = (children r)[idx := snd (clonePath (Suc nx) (children r ! idx) p)]"
  by (auto split: prod.splits)

lemma clonePath_resolves: "resolves (snd (clonePath nx r p)) q = resolves r q"
proof (induction q arbitrary: nx r p)
  case Nil
  show ?case by simp
next
  case (Cons a q)
  show ?case
  proof (cases p)
    case Nil
    then show ?thesis by simp
  next
    case (Cons idx p')
    show ?thesis
    proof (cases "idx < length (children r)")
      case True
      with Cons Cons.IH show ?thesis
        by (auto simp: clonePath_root clonePath_children nth_list_update simp del: clonePath.simps)
    next
      case False
      with Cons show ?thesis by simp
    qed
  qed
qed



lemma clonePath_on_path:
  "resolves r q \<Longrightarrow> isPrefix q p \<Longrightarrow>
     oid (getNodeAtPath (snd (clonePath nx r p)) q) = nx + length q
     \<and> info (getNodeAtPath (snd (clonePath nx r p)) q) = info (getNodeAtPath r q)"
proof (induction q arbitrary: nx r p)
  case Nil
  then show ?case by (simp add: clonePath_root del: clonePath.simps)
next
  case (Cons a q)
  then obtain p' where p: "p = a # p'" and pre: "isPrefix q p'"
    by (cases p) auto
  from Cons.prems have a: "a < length (children r)" and res: "resolves (children r ! a) q"
    by auto
  from Cons.IH [OF res pre, of "Suc nx"] a show ?case
    by (simp add: p clonePath_root clonePath_children del: clonePath.simps)
qed

lemma clonePath_next: "fst (clonePath nx r p) = Suc (nx + length (resolved r p))"
  by (induction p arbitrary: nx r) (auto simp: case_prod_beta)

lemma modifyInfo_simps [simp]:
  "oid (modifyInfo g n) = oid n" "info (modifyInfo g n) = g (info n)"
  "children (modifyInfo g n) = children n"
  by (simp_all add: modifyInfo_def)

lemma modifyChildren_simps [simp]:
  "oid (modifyChildren g n) = oid n" "info (modifyChildren g n) = info n"
  "children (modifyChildren g n) = g (children n)"
  by (simp_all add: modifyChildren_def)








section \<open>Deleting a move\<close>

lemma oid_in_oids: "oid n \<in> set (oids n)"
  by (cases n) simp

lemma distinct_oids_child: "distinct (oids n) \<Longrightarrow> c \<in> set (children n) \<Longrightarrow> distinct (oids c)"
  by (cases n) (auto simp: distinct_concat_iff)

lemma distinct_concat_disjoint:
  "distinct (concat xss) \<Longrightarrow> i < j \<Longrightarrow> j < length xss \<Longrightarrow> set (xss ! i) \<inter> set (xss ! j) = {}"
proof (induction xss arbitrary: i j)
  case Nil
  then show ?case by simp
next
  case (Cons xs xss)
  from Cons.prems obtain j' where j: "j = Suc j'" by (cases j) auto
  show ?case
  proof (cases i)
    case 0
    from Cons.prems j have "xss ! j' \<in> set xss" by simp
    with Cons.prems(1) 0 j show ?thesis by auto
  next
    case (Suc i')
    with Cons.IH [of i' j'] Cons.prems j show ?thesis by simp
  qed
qed

lemma distinct_oids_sibling:
  assumes "distinct (oids n)" "i < length (children n)" "j < length (children n)"
    "oid (children n ! i) = oid (children n ! j)"
  shows "i = j"
proof (rule ccontr)
  assume ne: "i \<noteq> j"
  obtain k d cs where n: "n = Node k d cs" by (cases n)
  from assms(1) have dc: "distinct (concat (map oids cs))" by (simp add: n)
  have "set (oids (cs ! i)) \<inter> set (oids (cs ! j)) = {}"
  proof (cases "i < j")
    case True
    with distinct_concat_disjoint [OF dc, of i j] assms(2,3) show ?thesis by (simp add: n)
  next
    case False
    with ne have "j < i" by simp
    with distinct_concat_disjoint [OF dc, of j i] assms(2,3) show ?thesis by (auto simp: n)
  qed
  with assms(4) oid_in_oids [of "cs ! i"] oid_in_oids [of "cs ! j"] show False
    by (auto simp: n)
qed

lemma distinct_oids_root_child:
  assumes "distinct (oids n)" "c \<in> set (children n)"
  shows "oid c \<noteq> oid n"
  using assms oid_in_oids [of c] by (cases n) auto

lemma distinct_oids_subtree: "distinct (oids r) \<Longrightarrow> distinct (oids (getNodeAtPath r q))"
proof (induction q arbitrary: r)
  case Nil
  then show ?case by simp
next
  case (Cons a q)
  show ?case
  proof (cases "a < length (children r)")
    case True
    then have "children r ! a \<in> set (children r)" by simp
    with Cons.prems have "distinct (oids (children r ! a))" by (rule distinct_oids_child)
    with True Cons.IH show ?thesis by simp
  next
    case False
    with Cons.prems show ?thesis by simp
  qed
qed

lemma findIndex_unique:
  "k < length xs \<Longrightarrow> P (xs ! k) \<Longrightarrow> (\<And>j. j < length xs \<Longrightarrow> P (xs ! j) \<Longrightarrow> j = k)
     \<Longrightarrow> findIndex P xs = int k"
proof (induction xs arbitrary: k)
  case Nil
  then show ?case by simp
next
  case (Cons x xs)
  show ?case
  proof (cases k)
    case 0
    with Cons.prems show ?thesis by simp
  next
    case (Suc k')
    have "\<not> P x" using Cons.prems(3) [of 0] Suc by auto
    moreover have "findIndex P xs = int k'"
    proof (rule Cons.IH)
      show "k' < length xs" using Cons.prems(1) Suc by simp
      show "P (xs ! k')" using Cons.prems(2) Suc by simp
      show "j = k'" if "j < length xs" "P (xs ! j)" for j
        using Cons.prems(3) [of "Suc j"] that Suc by simp
    qed
    ultimately show ?thesis using Suc by (simp add: Let_def)
  qed
qed

lemma findIndex_none: "(\<And>x. x \<in> set xs \<Longrightarrow> \<not> P x) \<Longrightarrow> findIndex P xs = -1"
  by (induction xs) (auto simp: Let_def)

lemma getNodeAtPath_snoc:
  "resolves r (q @ [k]) \<Longrightarrow> getNodeAtPath r (q @ [k]) = children (getNodeAtPath r q) ! k
     \<and> k < length (children (getNodeAtPath r q)) \<and> resolves r q"
  by (induction q arbitrary: r) auto

lemma getNodeAtPath_modify:
  "resolves r q \<Longrightarrow> getNodeAtPath (modifyNodeAtPath f r q) q = f (getNodeAtPath r q)"
  by (induction q arbitrary: r) auto

lemma deleteMove_index:
  assumes "distinct (oids r)" "path \<noteq> []" "resolves r path"
  shows "findIndex (\<lambda>n. oid n = oid (getNodeAtPath r path))
           (children (getNodeAtPath r (butlast path))) = int (last path)"
proof -
  from assms(2) have p: "path = butlast path @ [last path]" by simp
  let ?par = "getNodeAtPath r (butlast path)"
  from getNodeAtPath_snoc [of r "butlast path" "last path"] assms(3) p
  have g: "getNodeAtPath r path = children ?par ! last path"
    and k: "last path < length (children ?par)"
    by simp_all
  have d: "distinct (oids ?par)" using assms(1) by (rule distinct_oids_subtree)
  show ?thesis
  proof (rule findIndex_unique [OF k])
    show "oid (children ?par ! last path) = oid (getNodeAtPath r path)" by (simp add: g)
    show "j = last path"
      if "j < length (children ?par)" "oid (children ?par ! j) = oid (getNodeAtPath r path)" for j
      using distinct_oids_sibling [OF d that(1) k] that(2) g by simp
  qed
qed

lemma splice1_nat: "splice1 (int k) xs = take k xs @ drop (Suc k) xs"
  by (auto simp: splice1_def Let_def min_def)

lemma splice1_minus1: "splice1 (-1) xs = butlast xs"
proof (cases "xs = []")
  case True
  then show ?thesis by (simp add: splice1_def)
next
  case False
  then have "nat (int (length xs) - 1) = length xs - 1" by simp
  with False show ?thesis
    by (simp add: splice1_def Let_def max_def butlast_conv_take)
qed

text \<open>
  C6. For a tree in which no object occurs twice and a non-empty path \<open>P\<close> that resolves,
  \<^verbatim>\<open>deleteMove(P)\<close> removes the child of index \<open>last P\<close> from the children of the node at the
  parent path of \<open>P\<close> and changes nothing else in the tree; the cursor becomes the parent path
  when \<open>P\<close> is an initial segment of the cursor; otherwise, when the parent path is an initial
  segment of the cursor and the cursor is at least as long as \<open>P\<close>, the index of the cursor at
  the depth of \<open>P\<close> becomes 0; otherwise the cursor is unchanged.
\<close>

theorem deleteMove_removes_subtree:
  assumes "tree_inv state" and "path \<noteq> []" and "resolves (root state) path"
  shows "root (deleteMoveAction (Some path) state)
           = modifyNodeAtPath (removeChild (last path)) (root state) (butlast path)
       \<and> children (getNodeAtPath (root (deleteMoveAction (Some path) state)) (butlast path))
           = take (last path) (children (getNodeAtPath (root state) (butlast path)))
             @ drop (Suc (last path)) (children (getNodeAtPath (root state) (butlast path)))
       \<and> position (deleteMoveAction (Some path) state)
           = (if isPrefix path (position state) then butlast path
              else if isPrefix (butlast path) (position state)
                      \<and> length path \<le> length (position state)
                then (position state)[length path - 1 := 0]
              else position state)"
proof -
  have eq: "modifyChildren (splice1 (int (last path))) = removeChild (last path)"
    by (rule ext) (simp add: modifyChildren_def removeChild_def splice1_nat)
  have d: "distinct (oids (root state))" using assms(1) by (simp add: tree_inv_def)
  have rt: "root (deleteMoveAction (Some path) state)
           = modifyNodeAtPath (removeChild (last path)) (root state) (butlast path)"
    using deleteMove_index [OF d assms(2,3)] eq
    by (simp add: deleteMoveAction_def deleteMove_def Let_def)
  have ps: "position (deleteMoveAction (Some path) state)
           = (if isPrefix path (position state) then butlast path
              else if isPrefix (butlast path) (position state)
                      \<and> length path \<le> length (position state)
                then (position state)[length path - 1 := 0]
              else position state)"
    by (simp add: deleteMoveAction_def deleteMove_def Let_def)
  from assms(2) have p: "path = butlast path @ [last path]" by simp
  from getNodeAtPath_snoc [of "root state" "butlast path" "last path"] assms(3) p
  have "resolves (root state) (butlast path)" by simp
  then have "getNodeAtPath (modifyNodeAtPath (removeChild (last path)) (root state) (butlast path))
               (butlast path) = removeChild (last path) (getNodeAtPath (root state) (butlast path))"
    by (rule getNodeAtPath_modify)
  with rt ps show ?thesis by (simp add: removeChild_def)
qed

theorem deleteMove_removes_subtree_witness:
  "tree_inv (exampleState [0, 1, 0]) \<and> [0, 1] \<noteq> ([] :: nat list)
   \<and> resolves (root (exampleState [0, 1, 0])) [0, 1]
   \<and> map oid (children (getNodeAtPath
        (root (deleteMoveAction (Some [0, 1]) (exampleState [0, 1, 0]))) [0])) = [2]
   \<and> position (deleteMoveAction (Some [0, 1]) (exampleState [0, 1, 0])) = [0]"
proof -
  have inv: "tree_inv (exampleState [0, 1, 0])" by code_simp
  have ne: "[0, 1] \<noteq> ([] :: nat list)" by simp
  have r: "resolves (root (exampleState [0, 1, 0])) [0, 1]" by code_simp
  have p: "isPrefix [0, 1] (position (exampleState [0, 1, 0]))" by code_simp
  have l: "last [0, 1 :: nat] = 1" "butlast [0, 1 :: nat] = [0]" by simp_all
  have t: "map oid (take 1 (children (getNodeAtPath (root (exampleState [0, 1, 0])) [0]))
            @ drop (Suc 1) (children (getNodeAtPath (root (exampleState [0, 1, 0])) [0]))) = [2]"
    by code_simp
  note concl = deleteMove_removes_subtree [OF inv ne r, unfolded l if_P [OF p]]
  from concl
  have k: "children (getNodeAtPath (root (deleteMoveAction (Some [0, 1]) (exampleState [0, 1, 0]))) [0])
          = take 1 (children (getNodeAtPath (root (exampleState [0, 1, 0])) [0]))
            @ drop (Suc 1) (children (getNodeAtPath (root (exampleState [0, 1, 0])) [0]))"
    by (elim conjE)
  from concl have q: "position (deleteMoveAction (Some [0, 1]) (exampleState [0, 1, 0])) = [0]"
    by (elim conjE)
  from t have "map oid (children (getNodeAtPath
        (root (deleteMoveAction (Some [0, 1]) (exampleState [0, 1, 0]))) [0])) = [2]"
    unfolding k .
  with inv ne r q show ?thesis by (intro conjI)
qed

lemma distinct_children: "distinct (concat (map oids cs)) \<Longrightarrow> distinct cs"
proof (induction cs)
  case Nil
  show ?case by simp
next
  case (Cons c cs)
  have "c \<notin> set cs"
  proof
    assume "c \<in> set cs"
    then have "oid c \<in> set (concat (map oids cs))"
      using oid_in_oids [of c] by auto
    with Cons.prems oid_in_oids [of c] show False by auto
  qed
  with Cons show ?case by simp
qed

text \<open>
  C10 (as amended). With the empty path, on a tree whose root has a child and in which no
  object occurs twice, \<^verbatim>\<open>deleteMove\<close> is not a no-op: the root is its own parent, no child of the
  root is the root, \<^verbatim>\<open>findIndex\<close> is \<open>-1\<close> and \<^verbatim>\<open>splice(-1, 1)\<close> removes the last child of the
  root, with all that is below it. The root itself stays, with its fields. When the root has
  two children or more, the child at index 0 stays where it is and the last child is no child
  any more; when the root has one child, that child, the one at index 0, is removed and the
  root is left without children. The cursor becomes the empty path and the state is marked
  dirty.
\<close>

theorem deleteMove_empty_path_removes_last_child:
  assumes "tree_inv state" and "children (root state) \<noteq> []"
  shows "deleteMoveAction (Some []) state
           = state\<lparr>root := Node (oid (root state)) (info (root state))
                              (butlast (children (root state))),
                   position := [], dirty := True\<rparr>
       \<and> deleteMoveAction (Some []) state \<noteq> state
       \<and> findIndex (\<lambda>n. oid n = oid (root state)) (children (root state)) = -1
       \<and> children (root state)
           = children (root (deleteMoveAction (Some []) state)) @ [last (children (root state))]
       \<and> last (children (root state)) \<notin> set (children (root (deleteMoveAction (Some []) state)))
       \<and> (2 \<le> length (children (root state)) \<longrightarrow>
            children (root (deleteMoveAction (Some []) state)) ! 0 = children (root state) ! 0)
       \<and> (length (children (root state)) = 1 \<longrightarrow>
            children (root (deleteMoveAction (Some []) state)) = []
            \<and> last (children (root state)) = children (root state) ! 0)"
proof -
  have f: "findIndex (\<lambda>n. oid n = oid (root state)) (children (root state)) = -1"
    using assms(1) by (intro findIndex_none) (auto simp: tree_inv_def dest: distinct_oids_root_child)
  then have e: "deleteMoveAction (Some []) state
           = state\<lparr>root := Node (oid (root state)) (info (root state))
                              (butlast (children (root state))),
                   position := [], dirty := True\<rparr>"
    by (simp add: deleteMoveAction_def deleteMove_def Let_def modifyChildren_def splice1_minus1)
  let ?r' = "Node (oid (root state)) (info (root state)) (butlast (children (root state)))"
  let ?cs = "children (root state)"
  have "deleteMoveAction (Some []) state \<noteq> state"
  proof
    assume "deleteMoveAction (Some []) state = state"
    with e have "state\<lparr>root := ?r', position := [], dirty := True\<rparr> = state"
      by (rule trans [OF sym])
    then have r1: "root (state\<lparr>root := ?r', position := [], dirty := True\<rparr>) = root state"
      by (rule arg_cong)
    have r2: "root (state\<lparr>root := ?r', position := [], dirty := True\<rparr>) = ?r'"
      by simp
    from r1 have "?r' = root state" unfolding r2 .
    then have "length (children ?r') = length (children (root state))"
      by (rule arg_cong)
    then have "length (children (root state)) - 1 = length (children (root state))"
      by (simp only: node.sel length_butlast)
    moreover from assms(2) have "0 < length (children (root state))"
      by simp
    ultimately show False by linarith
  qed
  note ne = this
  have ch: "children (root (deleteMoveAction (Some []) state)) = butlast ?cs"
    unfolding e by simp
  have sn: "?cs = butlast ?cs @ [last ?cs]"
    using assms(2) by simp
  have d: "distinct ?cs"
  proof -
    from assms(1) have "distinct (oids (root state))" by (simp add: tree_inv_def)
    then have "distinct (concat (map oids ?cs))" by (cases "root state") simp
    then show ?thesis by (rule distinct_children)
  qed
  have nl: "last ?cs \<notin> set (butlast ?cs)"
  proof -
    from d sn have "distinct (butlast ?cs @ [last ?cs])" by simp
    then show ?thesis by simp
  qed
  have h0: "butlast ?cs ! 0 = ?cs ! 0" if "2 \<le> length ?cs"
    using that by (simp add: nth_butlast)
  have h1: "butlast ?cs = [] \<and> last ?cs = ?cs ! 0" if "length ?cs = 1"
    using that by (cases ?cs) simp_all
  from e ne f sn nl h0 h1 show ?thesis unfolding ch by simp
qed

theorem deleteMove_empty_path_removes_last_child_witness:
  "tree_inv (exampleState [0, 1]) \<and> children (root (exampleState [0, 1])) \<noteq> []
   \<and> map oid (children (root (exampleState [0, 1]))) = [1, 6]
   \<and> map oid (children (root (deleteMoveAction (Some []) (exampleState [0, 1])))) = [1]
   \<and> position (deleteMoveAction (Some []) (exampleState [0, 1])) = []
   \<and> children (root (deleteMoveAction (Some []) (exampleState [0, 1]))) ! 0
       = children (root (exampleState [0, 1])) ! 0
   \<and> tree_inv (shuffleState False 3 2) \<and> children (root (shuffleState False 3 2)) \<noteq> []
   \<and> length (children (root (shuffleState False 3 2))) = 1
   \<and> children (root (deleteMoveAction (Some []) (shuffleState False 3 2))) = []"
proof -
  have inv: "tree_inv (exampleState [0, 1])" by code_simp
  have ne: "children (root (exampleState [0, 1])) \<noteq> []" by code_simp
  have c: "map oid (children (root (exampleState [0, 1]))) = [1, 6]" by code_simp
  have b: "map oid (butlast (children (root (exampleState [0, 1])))) = [1]" by code_simp
  have l2: "2 \<le> length (children (root (exampleState [0, 1])))" by code_simp
  note concl = deleteMove_empty_path_removes_last_child [OF inv ne]
  from concl
  have e: "deleteMoveAction (Some []) (exampleState [0, 1])
           = (exampleState [0, 1])\<lparr>root := Node (oid (root (exampleState [0, 1])))
                 (info (root (exampleState [0, 1]))) (butlast (children (root (exampleState [0, 1])))),
               position := [], dirty := True\<rparr>"
    by (rule conjunct1)
  have m: "map oid (children (root (deleteMoveAction (Some []) (exampleState [0, 1])))) = [1]"
    unfolding e using b by simp
  have p: "position (deleteMoveAction (Some []) (exampleState [0, 1])) = []"
    unfolding e by simp
  from concl l2 have h: "children (root (deleteMoveAction (Some []) (exampleState [0, 1]))) ! 0
       = children (root (exampleState [0, 1])) ! 0"
    by blast
  have inv': "tree_inv (shuffleState False 3 2)" by code_simp
  have ne': "children (root (shuffleState False 3 2)) \<noteq> []" by code_simp
  have l1: "length (children (root (shuffleState False 3 2))) = 1" by code_simp
  from deleteMove_empty_path_removes_last_child [OF inv' ne'] l1
  have k: "children (root (deleteMoveAction (Some []) (shuffleState False 3 2))) = []"
    by blast
  from inv ne c m p h inv' ne' l1 k show ?thesis by (intro conjI)
qed

text \<open>
  C10 as stated fails when the root has one child: the last child is then the child at index
  0. In the tree of the line Nf3 Nf6 Ng1, \<^verbatim>\<open>deleteMove\<close> with the empty path removes Nf3 and
  all that follows: of four nodes the root alone is left.
\<close>

theorem deleteMove_empty_path_counterexample:
  "map (\<lambda>n. san (info n)) (children (root (shuffleState False 3 2))) = [Some ''Nf3'']
   \<and> nodeCount (root (shuffleState False 3 2)) = 4
   \<and> children (root (deleteMoveAction (Some []) (shuffleState False 3 2))) = []
   \<and> nodeCount (root (deleteMoveAction (Some []) (shuffleState False 3 2))) = 1
   \<and> children (root (shuffleState False 3 2)) ! 0
       \<notin> set (children (root (deleteMoveAction (Some []) (shuffleState False 3 2))))"
  by code_simp

section \<open>Promoting a variation\<close>

lemma getNodeAtPath_append:
  "resolves r q \<Longrightarrow> getNodeAtPath r (q @ s) = getNodeAtPath (getNodeAtPath r q) s"
  by (induction q arbitrary: r) auto

lemma resolves_append:
  "resolves r (q @ s) = (resolves r q \<and> resolves (getNodeAtPath r q) s)"
  by (induction q arbitrary: r) auto

lemma getNodeAtPath_modify_append:
  "resolves r q \<Longrightarrow>
     getNodeAtPath (modifyNodeAtPath f r q) (q @ s) = getNodeAtPath (f (getNodeAtPath r q)) s"
  by (induction q arbitrary: r) auto

lemma resolves_modify_append:
  "resolves r q \<Longrightarrow>
     resolves (modifyNodeAtPath f r q) (q @ s) = resolves (f (getNodeAtPath r q)) s"
  by (induction q arbitrary: r) auto

lemma findLastIndex_none: "(\<And>x. x \<in> set xs \<Longrightarrow> \<not> P x) \<Longrightarrow> findLastIndex P xs = -1"
  by (induction xs) (auto simp: Let_def)

lemma findLastIndex_deepest:
  "i < length xs \<Longrightarrow> P (xs ! i) \<Longrightarrow> (\<And>j. i < j \<Longrightarrow> j < length xs \<Longrightarrow> \<not> P (xs ! j))
     \<Longrightarrow> findLastIndex P xs = int i"
proof (induction xs arbitrary: i)
  case Nil
  then show ?case by simp
next
  case (Cons x xs)
  show ?case
  proof (cases i)
    case 0
    have "findLastIndex P xs = -1"
    proof (rule findLastIndex_none)
      fix y assume "y \<in> set xs"
      then obtain j where "j < length xs" "xs ! j = y" by (auto simp: in_set_conv_nth)
      with Cons.prems(3) [of "Suc j"] 0 show "\<not> P y" by auto
    qed
    with Cons.prems 0 show ?thesis by simp
  next
    case (Suc i')
    have "findLastIndex P xs = int i'"
    proof (rule Cons.IH)
      show "i' < length xs" using Cons.prems(1) Suc by simp
      show "P (xs ! i')" using Cons.prems(2) Suc by simp
      show "\<not> P (xs ! j)" if "i' < j" "j < length xs" for j
        using Cons.prems(3) [of "Suc j"] that Suc by simp
    qed
    with Suc show ?thesis by (simp add: Let_def)
  qed
qed

lemma deepest_nonzero_exists:
  "\<exists>v \<in> set (p :: nat list). v \<noteq> 0 \<Longrightarrow>
     \<exists>i. i < length p \<and> p ! i \<noteq> 0 \<and> (\<forall>j. i < j \<and> j < length p \<longrightarrow> p ! j = 0)"
proof (induction p)
  case Nil
  then show ?case by simp
next
  case (Cons x p)
  show ?case
  proof (cases "\<exists>v \<in> set p. v \<noteq> 0")
    case True
    with Cons.IH obtain i where i: "i < length p" "p ! i \<noteq> 0"
      "\<forall>j. i < j \<and> j < length p \<longrightarrow> p ! j = 0" by blast
    have "\<forall>j. Suc i < j \<and> j < length (x # p) \<longrightarrow> (x # p) ! j = 0"
    proof (intro allI impI)
      fix j assume j: "Suc i < j \<and> j < length (x # p)"
      then obtain j' where "j = Suc j'" by (cases j) auto
      with j i(3) show "(x # p) ! j = 0" by simp
    qed
    with i(1,2) show ?thesis by (intro exI [of _ "Suc i"]) simp
  next
    case False
    with Cons.prems have x: "x \<noteq> 0" by auto
    have "\<forall>j. 0 < j \<and> j < length (x # p) \<longrightarrow> (x # p) ! j = 0"
    proof (intro allI impI)
      fix j assume j: "0 < j \<and> j < length (x # p)"
      then obtain j' where "j = Suc j'" by (cases j) auto
      with j False show "(x # p) ! j = 0" by auto
    qed
    with x show ?thesis by (intro exI [of _ 0]) simp
  qed
qed

lemma all_zero_replicate: "\<forall>v \<in> set p. v = (0 :: nat) \<Longrightarrow> p = replicate (length p) 0"
  by (induction p) auto

text \<open>One step: the deepest non-zero index \<open>i\<close> of the path, the child it names moved to the
  front of its siblings, the cursor set to the path with \<open>0\<close> at \<open>i\<close>.\<close>

lemma promoteVariation_step:
  assumes "resolves (root state) p" and "i < length p" and "p ! i \<noteq> 0"
    and "\<forall>j. i < j \<and> j < length p \<longrightarrow> p ! j = 0"
  shows "promoteVariation state p
           = Inr (state\<lparr>root := modifyNodeAtPath (promoteChild (p ! i)) (root state) (take i p),
                        position := p[i := 0]\<rparr>)"
proof -
  have f: "findLastIndex (\<lambda>v. v \<noteq> 0) p = int i"
    using assms(2,3,4) by (intro findLastIndex_deepest) auto
  have p: "p = take i p @ (p ! i) # drop (Suc i) p"
    using assms(2) by (simp add: id_take_nth_drop [symmetric])
  with assms(1) have "resolves (root state) (take i p @ (p ! i) # drop (Suc i) p)" by simp
  then have v: "p ! i < length (children (getNodeAtPath (root state) (take i p)))"
    by (simp add: resolves_append)
  have "modifyChildren (\<lambda>cs. cs ! (p ! i) # splice1 (int (p ! i)) cs) = promoteChild (p ! i)"
    by (rule ext) (simp add: modifyChildren_def promoteChild_def splice1_nat)
  with f v show ?thesis by (simp add: promoteVariation_def Let_def)
qed

lemma promoteVariation_step_content:
  assumes "resolves r p" and "i < length p"
  shows "resolves (modifyNodeAtPath (promoteChild (p ! i)) r (take i p)) (p[i := 0])
       \<and> getNodeAtPath (modifyNodeAtPath (promoteChild (p ! i)) r (take i p)) (p[i := 0])
           = getNodeAtPath r p"
proof -
  let ?q = "take i p" and ?v = "p ! i" and ?s = "drop (Suc i) p"
  have p: "p = ?q @ ?v # ?s"
    using assms(2) by (simp add: id_take_nth_drop [symmetric])
  have p0: "p[i := 0] = ?q @ 0 # ?s"
    using assms(2) by (simp add: upd_conv_take_nth_drop)
  from assms(1) p have "resolves r (?q @ ?v # ?s)" by simp
  then have rq: "resolves r ?q" and v: "?v < length (children (getNodeAtPath r ?q))"
    and rs: "resolves (children (getNodeAtPath r ?q) ! ?v) ?s"
    by (simp_all add: resolves_append)
  have g: "getNodeAtPath r p = getNodeAtPath (children (getNodeAtPath r ?q) ! ?v) ?s"
    using getNodeAtPath_append [OF rq, of "?v # ?s"] p v by simp
  show ?thesis
    unfolding p0 using rq v rs g
    by (simp add: getNodeAtPath_modify_append resolves_modify_append promoteChild_def)
qed

lemma promoteLoop_result:
  "resolves (root state) p \<Longrightarrow>
     \<exists>state'. promoteLoop state p = Inr state'
       \<and> resolves (root state') (replicate (length p) 0)
       \<and> getNodeAtPath (root state') (replicate (length p) 0) = getNodeAtPath (root state) p
       \<and> position state' = (if \<exists>v \<in> set p. v \<noteq> 0 then replicate (length p) 0 else position state)
       \<and> headers state' = headers state \<and> dirty state' = dirty state"
proof (induction state p rule: promoteLoop.induct)
  case (1 state p)
  show ?case
  proof (cases "\<exists>v \<in> set p. v \<noteq> 0")
    case False
    then have "p = replicate (length p) 0"
      by (intro all_zero_replicate) auto
    then have "replicate (length p) 0 = p" by simp
    with False "1.prems" show ?thesis
      by (subst promoteLoop.simps) simp
  next
    case True
    from deepest_nonzero_exists [OF True] obtain i where i: "i < length p" "p ! i \<noteq> 0"
      "\<forall>j. i < j \<and> j < length p \<longrightarrow> p ! j = 0" by blast
    let ?st = "state\<lparr>root := modifyNodeAtPath (promoteChild (p ! i)) (root state) (take i p),
                     position := p[i := 0]\<rparr>"
    have pv: "promoteVariation state p = Inr ?st"
      using "1.prems" i by (rule promoteVariation_step)
    from promoteVariation_step_content [OF "1.prems" i(1)]
    have r: "resolves (root ?st) (position ?st)"
      and g: "getNodeAtPath (root ?st) (position ?st) = getNodeAtPath (root state) p"
      by simp_all
    from "1.IH" [OF True pv r] obtain state' where s:
      "promoteLoop ?st (position ?st) = Inr state'"
      "resolves (root state') (replicate (length (position ?st)) 0)"
      "getNodeAtPath (root state') (replicate (length (position ?st)) 0)
         = getNodeAtPath (root ?st) (position ?st)"
      "position state' = (if \<exists>v \<in> set (position ?st). v \<noteq> 0
                          then replicate (length (position ?st)) 0 else position ?st)"
      "headers state' = headers ?st" "dirty state' = dirty ?st"
      by blast
    have eq: "promoteLoop state p = Inr state'"
      using True pv s(1) by (subst promoteLoop.simps) simp
    have len: "length (position ?st) = length p" by simp
    have "position state' = replicate (length p) 0"
    proof (cases "\<exists>v \<in> set (position ?st). v \<noteq> 0")
      case True
      with s(4) len show ?thesis by simp
    next
      case False
      then have "position ?st = replicate (length (position ?st)) 0"
        by (intro all_zero_replicate) auto
      with False s(4) len show ?thesis by simp
    qed
    with eq s(2,3,5,6) g len True show ?thesis by simp
  qed
qed

text \<open>
  C5 (as amended). For every path \<open>P\<close> that resolves in the tree, \<^verbatim>\<open>promoteToMainline(P)\<close>
  terminates without failure; afterwards the path of zeros of the length of \<open>P\<close> resolves to
  the node (with its subtree) that \<open>P\<close> resolved to before, and the cursor is that path of zeros
  whenever \<open>P\<close> had a non-zero index (the loop body never runs otherwise, and the cursor stays
  where it was). Each step, \<^verbatim>\<open>promoteVariation\<close> on the current path \<open>p\<close>, takes the deepest
  position \<open>i\<close> of \<open>p\<close> with a non-zero index, moves that child to the front of its siblings,
  which keep their order, and sets the cursor to \<open>p\<close> with \<open>0\<close> at \<open>i\<close>.
\<close>

theorem promoteToMainline_all_zero_path:
  assumes "resolves (root state) P"
  shows "(\<exists>state'. promoteToMainline P state = Inr state'
            \<and> resolves (root state') (replicate (length P) 0)
            \<and> getNodeAtPath (root state') (replicate (length P) 0) = getNodeAtPath (root state) P
            \<and> position state'
                = (if \<exists>v \<in> set P. v \<noteq> 0 then replicate (length P) 0 else position state))
       \<and> (\<forall>i. i < length P \<and> P ! i \<noteq> 0 \<and> (\<forall>j. i < j \<and> j < length P \<longrightarrow> P ! j = 0) \<longrightarrow>
            promoteVariation state P
              = Inr (state\<lparr>root := modifyNodeAtPath (promoteChild (P ! i)) (root state) (take i P),
                           position := P[i := 0]\<rparr>))"
proof -
  from assms have "resolves (root (state\<lparr>dirty := True\<rparr>)) P" by simp
  from promoteLoop_result [OF this] obtain state' where s:
    "promoteLoop (state\<lparr>dirty := True\<rparr>) P = Inr state'"
    "resolves (root state') (replicate (length P) 0)"
    "getNodeAtPath (root state') (replicate (length P) 0)
       = getNodeAtPath (root (state\<lparr>dirty := True\<rparr>)) P"
    "position state' = (if \<exists>v \<in> set P. v \<noteq> 0 then replicate (length P) 0
                        else position (state\<lparr>dirty := True\<rparr>))"
    by blast
  from s(1) have "promoteToMainline P state = Inr state'"
    by (simp only: promoteToMainline_def)
  moreover from s(3) have "getNodeAtPath (root state') (replicate (length P) 0)
       = getNodeAtPath (root state) P" by simp
  moreover have "position (state\<lparr>dirty := True\<rparr>) = position state" by simp
  with s(4) have "position state'
       = (if \<exists>v \<in> set P. v \<noteq> 0 then replicate (length P) 0 else position state)"
    by (simp only:)
  ultimately have "\<exists>state'. promoteToMainline P state = Inr state'
            \<and> resolves (root state') (replicate (length P) 0)
            \<and> getNodeAtPath (root state') (replicate (length P) 0) = getNodeAtPath (root state) P
            \<and> position state'
                = (if \<exists>v \<in> set P. v \<noteq> 0 then replicate (length P) 0 else position state)"
    using s(2) by blast
  moreover have "promoteVariation state P
              = Inr (state\<lparr>root := modifyNodeAtPath (promoteChild (P ! i)) (root state) (take i P),
                           position := P[i := 0]\<rparr>)"
    if "i < length P \<and> P ! i \<noteq> 0 \<and> (\<forall>j. i < j \<and> j < length P \<longrightarrow> P ! j = 0)" for i
    using assms that by (intro promoteVariation_step) auto
  ultimately show ?thesis by blast
qed

theorem promoteToMainline_all_zero_path_witness:
  "resolves (root (exampleState [0])) [0, 1, 0]
   \<and> (\<exists>state'. promoteToMainline [0, 1, 0] (exampleState [0]) = Inr state'
        \<and> position state' = [0, 0, 0]
        \<and> oid (getNodeAtPath (root state') [0, 0, 0]) = 5)
   \<and> map oid (children (getNodeAtPath
        (root (projr (promoteVariation (exampleState [0]) [0, 1, 0]))) [0])) = [4, 2]"
proof -
  have r: "resolves (root (exampleState [0])) [0, 1, 0]" by code_simp
  have nz: "\<exists>v \<in> set [0, 1, 0 :: nat]. v \<noteq> 0" by simp
  have o: "oid (getNodeAtPath (root (exampleState [0])) [0, 1, 0]) = 5" by code_simp
  have l: "replicate (length [0, 1, 0 :: nat]) 0 = [0, 0, 0 :: nat]" by code_simp
  note concl = promoteToMainline_all_zero_path [OF r]
  from concl obtain state' where s: "promoteToMainline [0, 1, 0] (exampleState [0]) = Inr state'"
    "getNodeAtPath (root state') (replicate (length [0, 1, 0 :: nat]) 0)
       = getNodeAtPath (root (exampleState [0])) [0, 1, 0]"
    "position state' = (if \<exists>v \<in> set [0, 1, 0 :: nat]. v \<noteq> 0
                        then replicate (length [0, 1, 0 :: nat]) 0 else position (exampleState [0]))"
    by blast
  from s(3) have ps: "position state' = [0, 0, 0]"
    unfolding if_P [OF nz] l .
  from s(2) o have "oid (getNodeAtPath (root state') [0, 0, 0]) = 5"
    unfolding l by simp
  with s(1) ps have A: "\<exists>state'. promoteToMainline [0, 1, 0] (exampleState [0]) = Inr state'
        \<and> position state' = [0, 0, 0]
        \<and> oid (getNodeAtPath (root state') [0, 0, 0]) = 5"
    by blast
  have d: "1 < length [0, 1, 0 :: nat] \<and> [0, 1, 0 :: nat] ! 1 \<noteq> 0
           \<and> (\<forall>j. 1 < j \<and> j < length [0, 1, 0 :: nat] \<longrightarrow> [0, 1, 0 :: nat] ! j = 0)"
    by (auto simp: nth_Cons split: nat.splits)
  from concl d have "promoteVariation (exampleState [0]) [0, 1, 0]
      = Inr ((exampleState [0])\<lparr>root := modifyNodeAtPath (promoteChild ([0, 1, 0] ! 1))
                (root (exampleState [0])) (take 1 [0, 1, 0]), position := [0, 1, 0][1 := 0]\<rparr>)"
    by blast
  moreover have "map oid (children (getNodeAtPath (root
       ((exampleState [0])\<lparr>root := modifyNodeAtPath (promoteChild ([0, 1, 0] ! 1))
                (root (exampleState [0])) (take 1 [0, 1, 0]), position := [0, 1, 0][1 := 0]\<rparr>)) [0]))
       = [4, 2]"
    by code_simp
  ultimately have B: "map oid (children (getNodeAtPath
        (root (projr (promoteVariation (exampleState [0]) [0, 1, 0]))) [0])) = [4, 2]"
    by simp
  from r A B show ?thesis by (intro conjI)
qed

text \<open>
  C5 as stated fails for a path of zeros: \<^verbatim>\<open>p.some((v) => v !== 0)\<close> is false at once, the body
  of the loop never runs and the cursor is not moved. With the cursor at \<open>[0, 1]\<close>,
  \<^verbatim>\<open>promoteToMainline([0])\<close> leaves it at \<open>[0, 1]\<close>, which has a non-zero index.
\<close>

theorem promoteToMainline_zero_path_counterexample:
  "resolves (root (exampleState [0, 1])) [0]
   \<and> promoteToMainline [0] (exampleState [0, 1]) = Inr ((exampleState [0, 1])\<lparr>dirty := True\<rparr>)
   \<and> position ((exampleState [0, 1])\<lparr>dirty := True\<rparr>) = [0, 1]"
proof -
  have "resolves (root (exampleState [0, 1])) [0]" by code_simp
  moreover have "promoteToMainline [0] (exampleState [0, 1]) = Inr ((exampleState [0, 1])\<lparr>dirty := True\<rparr>)"
    by (simp add: promoteToMainline_def promoteLoop.simps)
  moreover have "position ((exampleState [0, 1])\<lparr>dirty := True\<rparr>) = [0, 1]"
    by (simp add: exampleState_def)
  ultimately show ?thesis by (intro conjI)
qed

section \<open>Applying a move\<close>

lemma pathNodes_resolves: "resolves r p \<Longrightarrow> pathNodes r p = Inr (nodesAlong r p)"
  by (induction p arbitrary: r) auto

lemma pathNodes_unresolved: "\<not> resolves r p \<Longrightarrow> pathNodes r p = Inl TypeError"
  by (induction p arbitrary: r) (auto split: sum.splits)

lemma nodesAlong_clonePath:
  "resolves r p \<Longrightarrow> map info (nodesAlong (snd (clonePath nx r p)) p) = map info (nodesAlong r p)"
proof (induction p arbitrary: r nx)
  case Nil
  show ?case by simp
next
  case (Cons i p)
  then have i: "i < length (children r)" and r: "resolves (children r ! i) p" by auto
  from Cons.IH [OF r, of "Suc nx"] i show ?case
    by (simp add: clonePath_root clonePath_children del: clonePath.simps)
qed

lemma clonePath_cursor_children:
  "resolves r p \<Longrightarrow> children (getNodeAtPath (snd (clonePath nx r p)) p) = children (getNodeAtPath r p)"
proof (induction p arbitrary: r nx)
  case Nil
  show ?case by simp
next
  case (Cons i p)
  then have i: "i < length (children r)" and r: "resolves (children r ! i) p" by auto
  from Cons.IH [OF r, of "Suc nx"] i show ?case
    by (simp add: clonePath_root clonePath_children del: clonePath.simps)
qed

lemma isPrefix_refl [simp]: "isPrefix p p"
  by (simp add: isPrefix_def)

lemma clonePath_cursor_info:
  "resolves r p \<Longrightarrow> info (getNodeAtPath (snd (clonePath nx r p)) p) = info (getNodeAtPath r p)"
  using clonePath_on_path [of r p p nx] by simp

lemma occurrences_info:
  "map info ns = map info ns' \<Longrightarrow> occurrences f ns = occurrences f ns'"
proof (induction ns arbitrary: ns')
  case Nil
  then show ?case by (simp add: occurrences_def)
next
  case (Cons n ns)
  then obtain m ms where m: "ns' = m # ms" "info n = info m" "map info ns = map info ms"
    by (cases ns') auto
  from Cons.IH [OF m(3)] m(1,2) show ?case by (simp add: occurrences_def)
qed

lemma count50_snoc:
  "count50 c (ns @ [n]) = (if resetsCounter (san (info n)) then 0 else count50 c ns + 1)"
  by (induction ns arbitrary: c) auto

lemma count50_quiet: "count50 0 ns = quietHalfmoves ns"
proof (induction ns rule: rev_induct)
  case Nil
  show ?case by (simp add: quietHalfmoves_def)
next
  case (snoc n ns)
  then show ?case by (simp add: count50_snoc quietHalfmoves_def)
qed

lemma count50_info: "map info ns = map info ns' \<Longrightarrow> count50 c ns = count50 c ns'"
proof (induction ns arbitrary: ns' c)
  case Nil
  then show ?case by simp
next
  case (Cons n ns)
  then obtain m ms where "ns' = m # ms" "info n = info m" "map info ns = map info ms"
    by (cases ns') auto
  with Cons.IH show ?case by simp
qed

lemma drawCondition_resolves:
  assumes "resolves (root state) (position state)"
  shows "drawCondition ch state newFen = Inr (drawValue ch (root state) (position state) newFen)"
proof -
  have t: "isThreeFoldRepetition state newFen
      = Inr (2 \<le> (if stripFen INITIAL_FEN = stripFen newFen then 1 else 0)
               + occurrences newFen (nodesAlong (root state) (position state)))"
    using assms
    by (simp add: isThreeFoldRepetition_def pathNodes_resolves occurrences_def Let_def filter_map comp_def)
  have f: "is50MoveRule state = Inr (100 \<le> quietHalfmoves (nodesAlong (root state) (position state)))"
    using assms by (simp add: is50MoveRule_def pathNodes_resolves count50_quiet)
  show ?thesis
    by (auto simp: drawCondition_def drawValue_def t f split: bool.splits)
qed

lemma quietHalfmoves_info:
  "map info ns = map info ns' \<Longrightarrow> quietHalfmoves ns = quietHalfmoves ns'"
  using count50_info [of ns ns' 0] by (simp add: count50_quiet)

lemma drawValue_info:
  "map info (nodesAlong r p) = map info (nodesAlong r' p') \<Longrightarrow>
     drawValue ch r p newFen = drawValue ch r' p' newFen"
  by (simp add: drawValue_def occurrences_info [of "nodesAlong r p" "nodesAlong r' p'"]
      quietHalfmoves_info [of "nodesAlong r p" "nodesAlong r' p'"])

text \<open>The slow path of \<^verbatim>\<open>makeMove\<close>, in one equation: for a legal move that is no child of the
  node at the cursor yet, on a state whose cursor resolves.\<close>

lemma makeMove_slow_path:
  assumes res: "resolves (root state) (position state)"
    and pos: "positionFromFen R (fen (info (getNodeAtPath (root state) (position state)))) = Some pos"
    and mv: "resolveMove R pos (payload args) = Some mv"
    and san: "makeSan R pos mv \<noteq> ''--''"
    and new: "findIndex (\<lambda>n. san (info n) = Some (makeSan R pos mv))
                (children (getNodeAtPath (root state) (position state))) = -1"
  shows "makeMove R args state =
     Inr (state
       \<lparr>root := modifyNodeAtPath
           (modifyChildren (\<lambda>cs.
              if mainline args = Some True
              then createNode (fst (clonePath (next_oid state) (root state) (position state)))
                     (makeFen R (play R pos mv)) mv (makeSan R pos mv)
                     (halfMoves (info (getNodeAtPath (root state) (position state))) + 1)
                     (arg_clock args) # cs
              else cs @ [createNode (fst (clonePath (next_oid state) (root state) (position state)))
                     (makeFen R (play R pos mv)) mv (makeSan R pos mv)
                     (halfMoves (info (getNodeAtPath (root state) (position state))) + 1)
                     (arg_clock args)]))
           (snd (clonePath (next_oid state) (root state) (position state))) (position state),
        position :=
          (if changePosition args \<noteq> Some False
           then (if mainline args = Some True then position state @ [0]
                 else position state
                      @ [length (children (getNodeAtPath (root state) (position state)))])
           else position state),
        headers :=
          (if drawValue (changeHeaders args \<noteq> Some False) (root state) (position state)
                (makeFen R (play R pos mv))
           then (endHeaders R (changeHeaders args \<noteq> Some False) (play R pos mv) (headers state))
                  \<lparr>result := ''1/2-1/2''\<rparr>
           else endHeaders R (changeHeaders args \<noteq> Some False) (play R pos mv) (headers state)),
        dirty := True,
        next_oid := Suc (fst (clonePath (next_oid state) (root state) (position state)))\<rparr>)"
proof -
  let ?p = "position state" and ?r = "root state"
  let ?nx = "fst (clonePath (next_oid state) ?r ?p)"
  let ?c = "snd (clonePath (next_oid state) ?r ?p)"
  let ?ms = "state\<lparr>root := ?c, next_oid := ?nx\<rparr>"
  have ci: "info (getNodeAtPath ?c ?p) = info (getNodeAtPath ?r ?p)"
    using res by (rule clonePath_cursor_info)
  have cc: "children (getNodeAtPath ?c ?p) = children (getNodeAtPath ?r ?p)"
    using res by (rule clonePath_cursor_children)
  have rc: "resolves (root ?ms) (position ?ms)"
    using res by (simp add: clonePath_resolves)
  have dc: "drawCondition ch ?ms f = Inr (drawValue ch ?r ?p f)" for ch f
  proof -
    have "drawCondition ch ?ms f = Inr (drawValue ch (root ?ms) (position ?ms) f)"
      using rc by (rule drawCondition_resolves)
    moreover have "drawValue ch (root ?ms) (position ?ms) f = drawValue ch ?r ?p f"
      using nodesAlong_clonePath [OF res, of "next_oid state"] by (intro drawValue_info) simp
    ultimately show ?thesis by simp
  qed
  have mt: "makeMoveOnTree R ?ms mv False (changePosition args \<noteq> Some False)
              (changeHeaders args \<noteq> Some False) (mainline args = Some True) (arg_clock args)
      = Inr (?ms
       \<lparr>headers :=
          (if drawValue (changeHeaders args \<noteq> Some False) ?r ?p (makeFen R (play R pos mv))
           then (endHeaders R (changeHeaders args \<noteq> Some False) (play R pos mv) (headers state))
                  \<lparr>result := ''1/2-1/2''\<rparr>
           else endHeaders R (changeHeaders args \<noteq> Some False) (play R pos mv) (headers state)),
        root := modifyNodeAtPath
           (modifyChildren (\<lambda>cs.
              if mainline args = Some True
              then createNode ?nx (makeFen R (play R pos mv)) mv (makeSan R pos mv)
                     (halfMoves (info (getNodeAtPath ?r ?p)) + 1) (arg_clock args) # cs
              else cs @ [createNode ?nx (makeFen R (play R pos mv)) mv (makeSan R pos mv)
                     (halfMoves (info (getNodeAtPath ?r ?p)) + 1) (arg_clock args)]))
           ?c ?p,
        position :=
          (if changePosition args \<noteq> Some False
           then (if mainline args = Some True then ?p @ [0]
                 else ?p @ [length (children (getNodeAtPath ?r ?p))])
           else ?p),
        dirty := True,
        next_oid := Suc ?nx\<rparr>)"
    unfolding makeMoveOnTree_def
    using pos san new by (simp add: ci cc dc Let_def)
  show ?thesis
    unfolding makeMove_def
    using pos mv san new by (simp add: Let_def case_prod_beta mt)
qed

text \<open>
  C8. If the notation given to \<^verbatim>\<open>makeMove\<close> does not parse to a move in the position of the node
  at the cursor, or the move has the notation \<open>--\<close>, the operation returns the state it was
  given, all of it, and raises nothing.
\<close>

theorem makeMove_rejects_illegal_move:
  assumes "positionFromFen R (fen (info (getNodeAtPath (root state) (position state)))) = Some pos"
    and "(\<exists>s. payload args = PSan s \<and> parseSan R pos s = None)
         \<or> (\<exists>mv. resolveMove R pos (payload args) = Some mv \<and> makeSan R pos mv = ''--'')"
  shows "makeMove R args state = Inr state"
  using assms by (auto simp: makeMove_def Let_def resolveMove_def)

theorem makeMove_rejects_illegal_move_witness:
  "positionFromFen (tableRules openingTable)
      (fen (info (getNodeAtPath (root (exampleState [0])) (position (exampleState [0]))))) = Some FEN_e4
   \<and> parseSan (tableRules openingTable) FEN_e4 ''Ke2'' = None
   \<and> makeMove (tableRules openingTable) (sanArgs ''Ke2'') (exampleState [0]) = Inr (exampleState [0])
   \<and> makeSan (tableRules openingTable) FEN_e4 (NormalMove 0 0 None) = ''--''
   \<and> makeMove (tableRules openingTable) ((sanArgs [])\<lparr>payload := PMove (NormalMove 0 0 None)\<rparr>)
       (exampleState [0]) = Inr (exampleState [0])"
proof -
  have p: "positionFromFen (tableRules openingTable)
      (fen (info (getNodeAtPath (root (exampleState [0])) (position (exampleState [0]))))) = Some FEN_e4"
    by code_simp
  have n: "parseSan (tableRules openingTable) FEN_e4 ''Ke2'' = None" by code_simp
  have d: "makeSan (tableRules openingTable) FEN_e4 (NormalMove 0 0 None) = ''--''" by code_simp
  have a1: "(\<exists>s. payload (sanArgs ''Ke2'') = PSan s \<and> parseSan (tableRules openingTable) FEN_e4 s = None)
         \<or> (\<exists>mv. resolveMove (tableRules openingTable) FEN_e4 (payload (sanArgs ''Ke2'')) = Some mv
                 \<and> makeSan (tableRules openingTable) FEN_e4 mv = ''--'')"
    using n by (simp add: sanArgs_def)
  have a2: "(\<exists>s. payload ((sanArgs [])\<lparr>payload := PMove (NormalMove 0 0 None)\<rparr>) = PSan s
                \<and> parseSan (tableRules openingTable) FEN_e4 s = None)
         \<or> (\<exists>mv. resolveMove (tableRules openingTable) FEN_e4
                    (payload ((sanArgs [])\<lparr>payload := PMove (NormalMove 0 0 None)\<rparr>)) = Some mv
                 \<and> makeSan (tableRules openingTable) FEN_e4 mv = ''--'')"
    using d by (simp add: resolveMove_def)
  from makeMove_rejects_illegal_move [OF p a1] makeMove_rejects_illegal_move [OF p a2] p n d
  show ?thesis by (intro conjI)
qed

lemma moveLegalE:
  assumes "moveLegal R args node"
  obtains pos mv where "positionFromFen R (fen (info node)) = Some pos"
    and "resolveMove R pos (payload args) = Some mv" and "makeSan R pos mv \<noteq> ''--''"
    and "moveSan R args node = makeSan R pos mv"
    and "moveFen R args node = makeFen R (play R pos mv)"
  using assms by (auto simp: moveLegal_def moveSan_def moveFen_def split: option.splits)

lemma occurrences_Cons:
  "occurrences f (n # ns) = (if stripFen (fen (info n)) = stripFen f then 1 else 0) + occurrences f ns"
  by (simp add: occurrences_def)

lemma makeMove_slow_draw:
  assumes "resolves (root state) (position state)"
    and "moveLegal R args (getNodeAtPath (root state) (position state))"
    and "\<not> moveExists R args (getNodeAtPath (root state) (position state))"
    and "drawValue (changeHeaders args \<noteq> Some False) (root state) (position state)
           (moveFen R args (getNodeAtPath (root state) (position state)))"
  shows "\<exists>state'. makeMove R args state = Inr state' \<and> result (headers state') = ''1/2-1/2''"
proof -
  from assms(2) obtain pos mv where
    p: "positionFromFen R (fen (info (getNodeAtPath (root state) (position state)))) = Some pos"
    and m: "resolveMove R pos (payload args) = Some mv" and s: "makeSan R pos mv \<noteq> ''--''"
    and ms: "moveSan R args (getNodeAtPath (root state) (position state)) = makeSan R pos mv"
    and mf: "moveFen R args (getNodeAtPath (root state) (position state)) = makeFen R (play R pos mv)"
    by (rule moveLegalE)
  from assms(3) ms have n: "findIndex (\<lambda>n. san (info n) = Some (makeSan R pos mv))
                (children (getNodeAtPath (root state) (position state))) = -1"
    by (simp add: moveExists_def)
  from assms(4) mf have d: "drawValue (changeHeaders args \<noteq> Some False) (root state)
      (position state) (makeFen R (play R pos mv))" by simp
  show ?thesis
    unfolding makeMove_slow_path [OF assms(1) p m s n] using d by simp
qed


lemma nodesAlong_append:
  "resolves r p \<Longrightarrow> nodesAlong r (p @ q) = nodesAlong r p @ nodesAlong (getNodeAtPath r p) q"
  by (induction p arbitrary: r) auto

lemma nodesAlong_modifyChildren:
  "resolves r p \<Longrightarrow>
     map info (nodesAlong (modifyNodeAtPath (modifyChildren g) r p) p) = map info (nodesAlong r p)"
proof (induction p arbitrary: r)
  case Nil
  show ?case by simp
next
  case (Cons i p)
  then have i: "i < length (children r)" and r: "resolves (children r ! i) p" by auto
  have "info (modifyNodeAtPath (modifyChildren g) (children r ! i) p) = info (children r ! i)"
    by (cases p) auto
  with Cons.IH [OF r] i show ?case by simp
qed

lemma quietHalfmoves_snoc:
  "quietHalfmoves (ns @ [n])
     = (if resetsCounter (san (info n)) then 0 else Suc (quietHalfmoves ns))"
  by (simp add: quietHalfmoves_def)

lemma moveEnds_legal:
  "positionFromFen R (fen (info node)) = Some pos \<Longrightarrow> resolveMove R pos (payload args) = Some mv
     \<Longrightarrow> moveEnds R args node = isEnd R (play R pos mv)"
  by (simp add: moveEnds_def)

text \<open>
  The slow path of \<^verbatim>\<open>makeMove\<close>, by its effects: where the cursor is afterwards, the new node
  and the line that leads to it in the new tree, and the result header, which is the draw when
  the draw condition holds on the line of the cursor and is left as it was when the condition
  fails and the move does not end the game.
\<close>

lemma makeMove_slow_effect:
  assumes res: "resolves (root state) (position state)"
    and legal: "moveLegal R args (getNodeAtPath (root state) (position state))"
    and new: "\<not> moveExists R args (getNodeAtPath (root state) (position state))"
  shows "\<exists>state' k. makeMove R args state = Inr state'
     \<and> position state'
         = (if changePosition args = Some False then position state else position state @ [k])
     \<and> resolves (root state') (position state @ [k])
     \<and> san (info (getNodeAtPath (root state') (position state @ [k])))
         = Some (moveSan R args (getNodeAtPath (root state) (position state)))
     \<and> map info (nodesAlong (root state') (position state @ [k]))
         = map info (nodesAlong (root state) (position state))
           @ [info (getNodeAtPath (root state') (position state @ [k]))]
     \<and> (drawValue (changeHeaders args \<noteq> Some False) (root state) (position state)
           (moveFen R args (getNodeAtPath (root state) (position state)))
         \<longrightarrow> result (headers state') = ''1/2-1/2'')
     \<and> (\<not> drawValue (changeHeaders args \<noteq> Some False) (root state) (position state)
             (moveFen R args (getNodeAtPath (root state) (position state)))
         \<longrightarrow> \<not> moveEnds R args (getNodeAtPath (root state) (position state))
         \<longrightarrow> result (headers state') = result (headers state))"
proof -
  let ?p = "position state" and ?r = "root state"
  let ?cur = "getNodeAtPath ?r ?p"
  from legal obtain pos mv where
    p: "positionFromFen R (fen (info ?cur)) = Some pos"
    and m: "resolveMove R pos (payload args) = Some mv" and s: "makeSan R pos mv \<noteq> ''--''"
    and ms: "moveSan R args ?cur = makeSan R pos mv"
    and mf: "moveFen R args ?cur = makeFen R (play R pos mv)"
    by (rule moveLegalE)
  from new ms have n: "findIndex (\<lambda>n. san (info n) = Some (makeSan R pos mv)) (children ?cur) = -1"
    by (simp add: moveExists_def)
  have me: "moveEnds R args ?cur = isEnd R (play R pos mv)"
    using p m by (rule moveEnds_legal)
  let ?nx = "fst (clonePath (next_oid state) ?r ?p)"
  let ?c = "snd (clonePath (next_oid state) ?r ?p)"
  let ?new = "createNode ?nx (makeFen R (play R pos mv)) mv (makeSan R pos mv)
                (halfMoves (info ?cur) + 1) (arg_clock args)"
  let ?g = "\<lambda>cs. if mainline args = Some True then ?new # cs else cs @ [?new]"
  let ?r1 = "modifyNodeAtPath (modifyChildren ?g) ?c ?p"
  let ?k = "if mainline args = Some True then 0 else length (children ?cur)"
  note eq = makeMove_slow_path [OF res p m s n]
  have rc: "resolves ?c ?p" using res by (simp add: clonePath_resolves)
  have cc: "children (getNodeAtPath ?c ?p) = children ?cur"
    using res by (rule clonePath_cursor_children)
  have g1: "getNodeAtPath ?r1 ?p = modifyChildren ?g (getNodeAtPath ?c ?p)"
    using rc by (rule getNodeAtPath_modify)
  have ch: "children (getNodeAtPath ?r1 ?p) = ?g (children ?cur)"
    unfolding g1 by (simp add: cc)
  have rk: "resolves ?r1 (?p @ [?k])"
    using rc by (simp add: resolves_modify_append cc)
  then have r1p: "resolves ?r1 ?p" by (simp add: resolves_append)
  have gk: "getNodeAtPath ?r1 (?p @ [?k]) = ?new"
    using getNodeAtPath_snoc [OF rk] ch by (simp add: nth_append)
  have na: "nodesAlong ?r1 (?p @ [?k]) = nodesAlong ?r1 ?p @ [?new]"
    using nodesAlong_append [OF r1p, of "[?k]"] ch by (simp add: nth_append)
  have "map info (nodesAlong ?r1 ?p) = map info (nodesAlong ?c ?p)"
    using rc by (rule nodesAlong_modifyChildren)
  also have "\<dots> = map info (nodesAlong ?r ?p)"
    using nodesAlong_clonePath [OF res, of "next_oid state"] by simp
  finally have ni: "map info (nodesAlong ?r1 (?p @ [?k]))
      = map info (nodesAlong ?r ?p) @ [info (getNodeAtPath ?r1 (?p @ [?k]))]"
    unfolding na gk by simp
  have sn: "san (info (getNodeAtPath ?r1 (?p @ [?k]))) = Some (moveSan R args ?cur)"
    unfolding gk ms by (simp add: createNode_def)
  have "\<exists>state'. makeMove R args state = Inr state' \<and> root state' = ?r1
      \<and> position state' = (if changePosition args = Some False then ?p else ?p @ [?k])
      \<and> (drawValue (changeHeaders args \<noteq> Some False) ?r ?p (moveFen R args ?cur)
           \<longrightarrow> result (headers state') = ''1/2-1/2'')
      \<and> (\<not> drawValue (changeHeaders args \<noteq> Some False) ?r ?p (moveFen R args ?cur)
           \<longrightarrow> \<not> moveEnds R args ?cur
           \<longrightarrow> result (headers state') = result (headers state))"
    unfolding eq mf me by (auto simp: endHeaders_def)
  then obtain state' where st: "makeMove R args state = Inr state'" "root state' = ?r1"
      "position state' = (if changePosition args = Some False then ?p else ?p @ [?k])"
      "drawValue (changeHeaders args \<noteq> Some False) ?r ?p (moveFen R args ?cur)
           \<longrightarrow> result (headers state') = ''1/2-1/2''"
      "\<not> drawValue (changeHeaders args \<noteq> Some False) ?r ?p (moveFen R args ?cur)
           \<longrightarrow> \<not> moveEnds R args ?cur
           \<longrightarrow> result (headers state') = result (headers state)"
    by blast
  from rk sn ni have
    "resolves (root state') (?p @ [?k])"
    "san (info (getNodeAtPath (root state') (?p @ [?k]))) = Some (moveSan R args ?cur)"
    "map info (nodesAlong (root state') (?p @ [?k]))
       = map info (nodesAlong ?r ?p) @ [info (getNodeAtPath (root state') (?p @ [?k]))]"
    unfolding st(2) by simp_all
  with st(1,3,4,5) show ?thesis by blast
qed

text \<open>The fast path of \<^verbatim>\<open>makeMove\<close>, in one equation.\<close>

lemma makeMove_fast_path:
  assumes "moveLegal R args (getNodeAtPath (root state) (position state))"
    and "findIndex (\<lambda>n. san (info n) = Some (moveSan R args (getNodeAtPath (root state) (position state))))
           (children (getNodeAtPath (root state) (position state))) = int k"
    and "changePosition args \<noteq> Some False"
  shows "makeMove R args state = Inr (state\<lparr>position := position state @ [k]\<rparr>)"
proof -
  from assms(1) obtain pos mv where
    p: "positionFromFen R (fen (info (getNodeAtPath (root state) (position state)))) = Some pos"
    and m: "resolveMove R pos (payload args) = Some mv" and s: "makeSan R pos mv \<noteq> ''--''"
    and ms: "moveSan R args (getNodeAtPath (root state) (position state)) = makeSan R pos mv"
    by (rule moveLegalE)
  from assms(2) ms have "findIndex (\<lambda>n. san (info n) = Some (makeSan R pos mv))
           (children (getNodeAtPath (root state) (position state))) = int k" by simp
  with p m s assms(3) show ?thesis
    by (simp add: makeMove_def Let_def)
qed

subsection \<open>The example line of the knights\<close>

lemma shuffle_get:
  "c \<le> n \<Longrightarrow> getNodeAtPath (Node i d (shuffleLine opn k n)) (replicate c 0)
     = (if c = 0 then Node i d (shuffleLine opn k n)
        else Node (k + c) (shuffleInfo opn (k + c)) (shuffleLine opn (k + c) (n - c)))"
proof (induction c arbitrary: i d k n)
  case 0
  show ?case by simp
next
  case (Suc c)
  then obtain n' where n: "n = Suc n'" "c \<le> n'" by (cases n) auto
  from Suc.IH [OF n(2), of "Suc k" "shuffleInfo opn (Suc k)" "Suc k"] n show ?case
    by simp
qed

lemma shuffle_resolves:
  "c \<le> n \<Longrightarrow> resolves (Node i d (shuffleLine opn k n)) (replicate c 0)"
proof (induction c arbitrary: i d k n)
  case 0
  show ?case by simp
next
  case (Suc c)
  then obtain n' where n: "n = Suc n'" "c \<le> n'" by (cases n) auto
  from Suc.IH [OF n(2), of "Suc k" "shuffleInfo opn (Suc k)" "Suc k"] n show ?case
    by simp
qed

lemma shuffle_nodesAlong:
  "c \<le> n \<Longrightarrow> map info (nodesAlong (Node i d (shuffleLine opn k n)) (replicate c 0))
     = map (shuffleInfo opn) [Suc k ..< Suc (k + c)]"
proof (induction c arbitrary: i d k n)
  case 0
  show ?case by simp
next
  case (Suc c)
  then obtain n' where n: "n = Suc n'" "c \<le> n'" by (cases n) auto
  have u: "[Suc k ..< Suc (k + Suc c)] = Suc k # [Suc (Suc k) ..< Suc (Suc k + c)]"
    by (simp add: upt_conv_Cons del: upt_Suc)
  from Suc.IH [OF n(2), of "Suc k" "shuffleInfo opn (Suc k)" "Suc k"] n show ?case
    unfolding u by (simp del: upt_Suc)
qed

lemma shuffleSan_quiet: "\<not> resetsCounter (Some (shuffleSan k))"
proof -
  have "k mod 4 = 0 \<or> k mod 4 = 1 \<or> k mod 4 = 2 \<or> k mod 4 = 3" by arith
  then show ?thesis
    by (auto simp: shuffleSan_def resetsCounter_def)
qed

lemma quietHalfmoves_all:
  "(\<And>n. n \<in> set ns \<Longrightarrow> \<not> resetsCounter (san (info n))) \<Longrightarrow> quietHalfmoves ns = length ns"
  by (simp add: quietHalfmoves_def takeWhile_eq_all_conv [THEN iffD2])

lemma shuffle_quiet:
  assumes "c \<le> n"
  shows "quietHalfmoves (nodesAlong (root (shuffleState opn n c)) (position (shuffleState opn n c))) = c"
proof -
  let ?ns = "nodesAlong (root (shuffleState opn n c)) (position (shuffleState opn n c))"
  have m: "map info ?ns = map (shuffleInfo opn) [Suc 0 ..< Suc c]"
    using shuffle_nodesAlong [OF assms, of _ _ opn 0] by (simp add: shuffleState_def)
  then have "length (map info ?ns) = c" by simp
  then have len: "length ?ns = c" by simp
  have "\<not> resetsCounter (san (info x))" if "x \<in> set ?ns" for x
  proof -
    from that have "info x \<in> set (map info ?ns)" by simp
    then obtain j where "info x = shuffleInfo opn j" unfolding m by auto
    then show ?thesis by (simp add: shuffleInfo_def shuffleSan_quiet)
  qed
  then have "quietHalfmoves ?ns = length ?ns" by (rule quietHalfmoves_all)
  with len show ?thesis by simp
qed

lemma shuffle_cursor:
  "0 < c \<Longrightarrow> c \<le> n \<Longrightarrow>
     getNodeAtPath (root (shuffleState opn n c)) (position (shuffleState opn n c))
       = Node c (shuffleInfo opn c) (shuffleLine opn c (n - c))"
  using shuffle_get [of c n _ _ opn 0] by (simp add: shuffleState_def)

lemma shuffle_state_resolves:
  "c \<le> n \<Longrightarrow> resolves (root (shuffleState opn n c)) (position (shuffleState opn n c))"
  using shuffle_resolves [of c n _ _ opn 0] by (simp add: shuffleState_def)

subsection \<open>Draws by repetition and by the fifty-move rule\<close>

text \<open>
  C1 (as amended). For a state whose cursor resolves and a legal move that is not yet a child of
  the node at the cursor (the slow path of \<^verbatim>\<open>makeMove\<close>), with header updates enabled,
  \<^verbatim>\<open>makeMove\<close> returns a state, and: if the resulting position, stripped as the code strips it
  (the part of the FEN before the first \<open>" - "\<close>), occurs at least twice among the stripped
  positions of the nodes on the cursor path below the root, counting the root as well when the
  tree starts from the standard initial position, then the result header of that state is
  \<open>1/2-1/2\<close>. Only the current line is counted: when the resulting position occurs less than
  twice along the ancestor chain of the cursor, the root counted as the code counts it (so in
  every tree from the standard initial position), fewer than 99 halfmoves without pawn move,
  capture or promotion end the line and the move does not end the game, the result header is
  left as it was, whatever the variations off the line hold.
\<close>

theorem makeMove_threefold_repetition_draw:
  assumes "resolves (root state) (position state)"
    and "moveLegal R args (getNodeAtPath (root state) (position state))"
    and "\<not> moveExists R args (getNodeAtPath (root state) (position state))"
    and "changeHeaders args \<noteq> Some False"
  shows "\<exists>state'. makeMove R args state = Inr state'
     \<and> (2 \<le> occurrences (moveFen R args (getNodeAtPath (root state) (position state)))
               (if stripFen (fen (info (root state))) = stripFen INITIAL_FEN
                then ancestorChain (root state) (position state)
                else nodesAlong (root state) (position state))
         \<longrightarrow> result (headers state') = ''1/2-1/2'')
     \<and> ((stripFen (fen (info (root state)))
            = stripFen (moveFen R args (getNodeAtPath (root state) (position state))))
          = (stripFen INITIAL_FEN
            = stripFen (moveFen R args (getNodeAtPath (root state) (position state))))
         \<and> occurrences (moveFen R args (getNodeAtPath (root state) (position state)))
              (ancestorChain (root state) (position state)) < 2
         \<and> quietHalfmoves (nodesAlong (root state) (position state)) < 99
         \<and> \<not> moveEnds R args (getNodeAtPath (root state) (position state))
         \<longrightarrow> result (headers state') = result (headers state))"
proof -
  let ?f = "moveFen R args (getNodeAtPath (root state) (position state))"
  let ?line = "nodesAlong (root state) (position state)"
  let ?code = "(if stripFen INITIAL_FEN = stripFen ?f then 1 else 0) + occurrences ?f ?line"
  from makeMove_slow_effect [OF assms(1,2,3)] obtain state' where
    m: "makeMove R args state = Inr state'"
    and d: "drawValue (changeHeaders args \<noteq> Some False) (root state) (position state) ?f
              \<longrightarrow> result (headers state') = ''1/2-1/2''"
    and nd: "\<not> drawValue (changeHeaders args \<noteq> Some False) (root state) (position state) ?f
              \<longrightarrow> \<not> moveEnds R args (getNodeAtPath (root state) (position state))
              \<longrightarrow> result (headers state') = result (headers state)"
    by blast
  have pos: "result (headers state') = ''1/2-1/2''"
    if h: "2 \<le> occurrences ?f
               (if stripFen (fen (info (root state))) = stripFen INITIAL_FEN
                then ancestorChain (root state) (position state) else ?line)"
  proof -
    have "2 \<le> ?code"
    proof (cases "stripFen (fen (info (root state))) = stripFen INITIAL_FEN")
      case True
      with h show ?thesis
        by (simp add: ancestorChain_def occurrences_Cons split: if_splits)
    next
      case False
      with h show ?thesis by simp
    qed
    with assms(4) have "drawValue (changeHeaders args \<noteq> Some False) (root state)
        (position state) ?f"
      by (simp add: drawValue_def)
    with d show ?thesis by simp
  qed
  have neg: "result (headers state') = result (headers state)"
    if c: "(stripFen (fen (info (root state))) = stripFen ?f)
             = (stripFen INITIAL_FEN = stripFen ?f)"
      and o: "occurrences ?f (ancestorChain (root state) (position state)) < 2"
      and q: "quietHalfmoves ?line < 99"
      and e: "\<not> moveEnds R args (getNodeAtPath (root state) (position state))"
  proof -
    from c o have "?code < 2"
      by (simp add: ancestorChain_def occurrences_Cons split: if_splits)
    with q have "\<not> drawValue (changeHeaders args \<noteq> Some False) (root state)
        (position state) ?f"
      by (simp add: drawValue_def)
    with nd e show ?thesis by simp
  qed
  from m pos neg show ?thesis by blast
qed

theorem makeMove_threefold_repetition_draw_witness:
  "resolves (root (shuffleState False 7 7)) (position (shuffleState False 7 7))
   \<and> moveLegal (tableRules [shuffleStep False 7]) (sanArgs ''Ng8'')
       (getNodeAtPath (root (shuffleState False 7 7)) (position (shuffleState False 7 7)))
   \<and> \<not> moveExists (tableRules [shuffleStep False 7]) (sanArgs ''Ng8'')
       (getNodeAtPath (root (shuffleState False 7 7)) (position (shuffleState False 7 7)))
   \<and> changeHeaders (sanArgs ''Ng8'') \<noteq> Some False
   \<and> occurrences (moveFen (tableRules [shuffleStep False 7]) (sanArgs ''Ng8'')
         (getNodeAtPath (root (shuffleState False 7 7)) (position (shuffleState False 7 7))))
       (ancestorChain (root (shuffleState False 7 7)) (position (shuffleState False 7 7))) = 2
   \<and> (\<exists>state'. makeMove (tableRules [shuffleStep False 7]) (sanArgs ''Ng8'') (shuffleState False 7 7)
                  = Inr state' \<and> result (headers state') = ''1/2-1/2'')
   \<and> resolves (root transposingState) (position transposingState)
   \<and> moveLegal (tableRules [shuffleStep False 3]) (sanArgs ''Ng8'')
       (getNodeAtPath (root transposingState) (position transposingState))
   \<and> \<not> moveExists (tableRules [shuffleStep False 3]) (sanArgs ''Ng8'')
       (getNodeAtPath (root transposingState) (position transposingState))
   \<and> stripFen (fen (info (root transposingState))) = stripFen INITIAL_FEN
   \<and> occurrences (moveFen (tableRules [shuffleStep False 3]) (sanArgs ''Ng8'')
         (getNodeAtPath (root transposingState) (position transposingState)))
       (ancestorChain (root transposingState) (position transposingState)) = 1
   \<and> occurrences (moveFen (tableRules [shuffleStep False 3]) (sanArgs ''Ng8'')
         (getNodeAtPath (root transposingState) (position transposingState)))
       (treeNodes (root transposingState)) = 3
   \<and> quietHalfmoves (nodesAlong (root transposingState) (position transposingState)) = 3
   \<and> \<not> moveEnds (tableRules [shuffleStep False 3]) (sanArgs ''Ng8'')
       (getNodeAtPath (root transposingState) (position transposingState))
   \<and> (\<exists>state'. makeMove (tableRules [shuffleStep False 3]) (sanArgs ''Ng8'') transposingState
                  = Inr state' \<and> result (headers state') = ''*'')"
proof -
  let ?s = "shuffleState False 7 7" and ?R = "tableRules [shuffleStep False 7]"
  have r: "resolves (root ?s) (position ?s)" by code_simp
  have l: "moveLegal ?R (sanArgs ''Ng8'') (getNodeAtPath (root ?s) (position ?s))" by code_simp
  have n: "\<not> moveExists ?R (sanArgs ''Ng8'') (getNodeAtPath (root ?s) (position ?s))" by code_simp
  have c: "changeHeaders (sanArgs ''Ng8'') \<noteq> Some False" by code_simp
  have i: "stripFen (fen (info (root ?s))) = stripFen INITIAL_FEN" by code_simp
  have o: "occurrences (moveFen ?R (sanArgs ''Ng8'') (getNodeAtPath (root ?s) (position ?s)))
             (ancestorChain (root ?s) (position ?s)) = 2" by code_simp
  have h: "2 \<le> occurrences (moveFen ?R (sanArgs ''Ng8'') (getNodeAtPath (root ?s) (position ?s)))
               (if stripFen (fen (info (root ?s))) = stripFen INITIAL_FEN
                then ancestorChain (root ?s) (position ?s)
                else nodesAlong (root ?s) (position ?s))"
    unfolding if_P [OF i] o by simp
  from makeMove_threefold_repetition_draw [OF r l n c] h
  have a: "\<exists>state'. makeMove ?R (sanArgs ''Ng8'') ?s = Inr state'
             \<and> result (headers state') = ''1/2-1/2''"
    by blast
  let ?t = "transposingState" and ?Q = "tableRules [shuffleStep False 3]"
  let ?g = "moveFen ?Q (sanArgs ''Ng8'') (getNodeAtPath (root ?t) (position ?t))"
  have r': "resolves (root ?t) (position ?t)" by code_simp
  have l': "moveLegal ?Q (sanArgs ''Ng8'') (getNodeAtPath (root ?t) (position ?t))" by code_simp
  have n': "\<not> moveExists ?Q (sanArgs ''Ng8'') (getNodeAtPath (root ?t) (position ?t))"
    by code_simp
  have i': "stripFen (fen (info (root ?t))) = stripFen INITIAL_FEN" by code_simp
  have e1: "stripFen (fen (info (root ?t))) = stripFen ?g" by code_simp
  have e2: "stripFen INITIAL_FEN = stripFen ?g" by code_simp
  have o': "occurrences ?g (ancestorChain (root ?t) (position ?t)) = 1" by code_simp
  have t': "occurrences ?g (treeNodes (root ?t)) = 3" by code_simp
  have q': "quietHalfmoves (nodesAlong (root ?t) (position ?t)) = 3" by code_simp
  have m': "\<not> moveEnds ?Q (sanArgs ''Ng8'') (getNodeAtPath (root ?t) (position ?t))"
    by code_simp
  have h': "result (headers ?t) = ''*''" by code_simp
  from makeMove_threefold_repetition_draw [OF r' l' n' c] e1 e2 o' q' m'
  have "\<exists>state'. makeMove ?Q (sanArgs ''Ng8'') ?t = Inr state'
          \<and> result (headers state') = result (headers ?t)"
    by auto
  then have b: "\<exists>state'. makeMove ?Q (sanArgs ''Ng8'') ?t = Inr state'
          \<and> result (headers state') = ''*''"
    unfolding h' .
  from r l n c o a r' l' n' i' o' t' q' m' b show ?thesis by (intro conjI)
qed

text \<open>
  C1 as stated fails in two ways. On the fast path nothing but the cursor changes: in the tree
  of Nf3 Nf6 Ng1 Ng8 Nf3 Nf6 Ng1 Ng8 from the initial position, with the cursor before the last
  Ng8 and the result \<open>*\<close>, \<^verbatim>\<open>makeMove("Ng8")\<close> finds the child, although the position it leads to
  is that of the root and of the fourth node. And the entry of \<^verbatim>\<open>isThreeFoldRepetition\<close> for
  the root is the stripped \<^verbatim>\<open>INITIAL_FEN\<close>, whatever the root: in the same line played from the
  position after 1. e4 e5, with the last Ng8 new, the root and the fourth node have the
  resulting position, and the result stays \<open>*\<close>.
\<close>

theorem makeMove_threefold_counterexample:
  "resolves (root (shuffleState False 8 7)) (position (shuffleState False 8 7))
   \<and> moveLegal (tableRules [shuffleStep False 7]) (sanArgs ''Ng8'')
       (getNodeAtPath (root (shuffleState False 8 7)) (position (shuffleState False 8 7)))
   \<and> occurrences (moveFen (tableRules [shuffleStep False 7]) (sanArgs ''Ng8'')
         (getNodeAtPath (root (shuffleState False 8 7)) (position (shuffleState False 8 7))))
       (ancestorChain (root (shuffleState False 8 7)) (position (shuffleState False 8 7))) = 2
   \<and> makeMove (tableRules [shuffleStep False 7]) (sanArgs ''Ng8'') (shuffleState False 8 7)
       = Inr (shuffleState False 8 8)
   \<and> result (headers (shuffleState False 8 8)) = ''*''
   \<and> resolves (root (shuffleState True 7 7)) (position (shuffleState True 7 7))
   \<and> moveLegal (tableRules [shuffleStep True 7]) (sanArgs ''Ng8'')
       (getNodeAtPath (root (shuffleState True 7 7)) (position (shuffleState True 7 7)))
   \<and> \<not> moveExists (tableRules [shuffleStep True 7]) (sanArgs ''Ng8'')
       (getNodeAtPath (root (shuffleState True 7 7)) (position (shuffleState True 7 7)))
   \<and> occurrences (moveFen (tableRules [shuffleStep True 7]) (sanArgs ''Ng8'')
         (getNodeAtPath (root (shuffleState True 7 7)) (position (shuffleState True 7 7))))
       (ancestorChain (root (shuffleState True 7 7)) (position (shuffleState True 7 7))) = 2
   \<and> \<not> isl (makeMove (tableRules [shuffleStep True 7]) (sanArgs ''Ng8'') (shuffleState True 7 7))
   \<and> result (headers (projr (makeMove (tableRules [shuffleStep True 7]) (sanArgs ''Ng8'')
         (shuffleState True 7 7)))) = ''*''"
  by code_simp

text \<open>
  C2 (as amended). For a state whose cursor resolves and a legal move that is not yet a child of
  the node at the cursor (the slow path of \<^verbatim>\<open>makeMove\<close>), with or without header updates: if the
  line of the cursor ends in at least 100 nodes whose notation has no first letter from \<open>a\<close> to
  \<open>h\<close>, no \<open>x\<close> and no \<open>=\<close>, and the notation of the move has none either, then \<^verbatim>\<open>makeMove\<close>
  returns a state whose result header is \<open>1/2-1/2\<close>; in its tree the line to the new node ends
  in more than 100 such nodes, and the cursor is on the new node unless the caller keeps it.
  The counter of the code is the number of nodes after the last notation with such a mark: any
  match sets it to zero.
\<close>

theorem makeMove_fifty_move_draw:
  assumes "resolves (root state) (position state)"
    and "moveLegal R args (getNodeAtPath (root state) (position state))"
    and "\<not> moveExists R args (getNodeAtPath (root state) (position state))"
    and "100 \<le> quietHalfmoves (nodesAlong (root state) (position state))"
    and "\<not> resetsCounter (Some (moveSan R args (getNodeAtPath (root state) (position state))))"
  shows "(\<exists>state' k. makeMove R args state = Inr state'
            \<and> result (headers state') = ''1/2-1/2''
            \<and> position state'
                = (if changePosition args = Some False then position state
                   else position state @ [k])
            \<and> resolves (root state') (position state @ [k])
            \<and> san (info (getNodeAtPath (root state') (position state @ [k])))
                = Some (moveSan R args (getNodeAtPath (root state) (position state)))
            \<and> quietHalfmoves (nodesAlong (root state') (position state @ [k]))
                = Suc (quietHalfmoves (nodesAlong (root state) (position state))))
       \<and> is50MoveRule state = Inr True
       \<and> count50 0 (nodesAlong (root state) (position state))
           = quietHalfmoves (nodesAlong (root state) (position state))"
proof -
  let ?p = "position state"
  let ?cur = "getNodeAtPath (root state) ?p"
  from assms(4) have dv: "drawValue (changeHeaders args \<noteq> Some False) (root state) ?p
      (moveFen R args ?cur)"
    by (simp add: drawValue_def)
  from makeMove_slow_effect [OF assms(1,2,3)] obtain state' k where
    m: "makeMove R args state = Inr state'"
    and ps: "position state' = (if changePosition args = Some False then ?p else ?p @ [k])"
    and rs: "resolves (root state') (?p @ [k])"
    and sn: "san (info (getNodeAtPath (root state') (?p @ [k]))) = Some (moveSan R args ?cur)"
    and ni: "map info (nodesAlong (root state') (?p @ [k]))
               = map info (nodesAlong (root state) ?p)
                 @ [info (getNodeAtPath (root state') (?p @ [k]))]"
    and d: "drawValue (changeHeaders args \<noteq> Some False) (root state) ?p (moveFen R args ?cur)
              \<longrightarrow> result (headers state') = ''1/2-1/2''"
    by blast
  from d dv have res: "result (headers state') = ''1/2-1/2''" by simp
  have "map info (nodesAlong (root state') (?p @ [k]))
          = map info (nodesAlong (root state) ?p @ [getNodeAtPath (root state') (?p @ [k])])"
    using ni by simp
  then have "quietHalfmoves (nodesAlong (root state') (?p @ [k]))
          = quietHalfmoves (nodesAlong (root state) ?p @ [getNodeAtPath (root state') (?p @ [k])])"
    by (rule quietHalfmoves_info)
  also have "\<dots> = Suc (quietHalfmoves (nodesAlong (root state) ?p))"
    using assms(5) sn by (simp add: quietHalfmoves_snoc)
  finally have q: "quietHalfmoves (nodesAlong (root state') (?p @ [k]))
          = Suc (quietHalfmoves (nodesAlong (root state) ?p))" .
  have "is50MoveRule state = Inr True"
    using assms(1,4) by (simp add: is50MoveRule_def pathNodes_resolves count50_quiet)
  moreover from m res ps rs sn q have "\<exists>state' k. makeMove R args state = Inr state'
            \<and> result (headers state') = ''1/2-1/2''
            \<and> position state' = (if changePosition args = Some False then ?p else ?p @ [k])
            \<and> resolves (root state') (?p @ [k])
            \<and> san (info (getNodeAtPath (root state') (?p @ [k]))) = Some (moveSan R args ?cur)
            \<and> quietHalfmoves (nodesAlong (root state') (?p @ [k]))
                = Suc (quietHalfmoves (nodesAlong (root state) ?p))"
    by blast
  ultimately show ?thesis by (simp add: count50_quiet)
qed

theorem makeMove_fifty_move_draw_witness:
  "resolves (root (shuffleState False 100 100)) (position (shuffleState False 100 100))
   \<and> moveLegal (tableRules [shuffleStep False 100]) (sanArgs ''Nf3'')
       (getNodeAtPath (root (shuffleState False 100 100)) (position (shuffleState False 100 100)))
   \<and> \<not> moveExists (tableRules [shuffleStep False 100]) (sanArgs ''Nf3'')
       (getNodeAtPath (root (shuffleState False 100 100)) (position (shuffleState False 100 100)))
   \<and> 100 \<le> quietHalfmoves (nodesAlong (root (shuffleState False 100 100))
                (position (shuffleState False 100 100)))
   \<and> \<not> resetsCounter (Some (moveSan (tableRules [shuffleStep False 100]) (sanArgs ''Nf3'')
           (getNodeAtPath (root (shuffleState False 100 100))
              (position (shuffleState False 100 100)))))
   \<and> (\<exists>state'. makeMove (tableRules [shuffleStep False 100]) (sanArgs ''Nf3'')
                  (shuffleState False 100 100) = Inr state'
                \<and> result (headers state') = ''1/2-1/2'')"
proof -
  let ?s = "shuffleState False 100 100" and ?R = "tableRules [shuffleStep False 100]"
  have r: "resolves (root ?s) (position ?s)" by (rule shuffle_state_resolves) simp
  have cur: "getNodeAtPath (root ?s) (position ?s) = Node 100 (shuffleInfo False 100) []"
    using shuffle_cursor [of 100 100 False] by simp
  have "moveLegal ?R (sanArgs ''Nf3'') (Node 100 (shuffleInfo False 100) [])" by code_simp
  then have l: "moveLegal ?R (sanArgs ''Nf3'') (getNodeAtPath (root ?s) (position ?s))"
    unfolding cur .
  have "\<not> moveExists ?R (sanArgs ''Nf3'') (Node 100 (shuffleInfo False 100) [])" by code_simp
  then have n: "\<not> moveExists ?R (sanArgs ''Nf3'') (getNodeAtPath (root ?s) (position ?s))"
    unfolding cur .
  have q: "100 \<le> quietHalfmoves (nodesAlong (root ?s) (position ?s))"
    using shuffle_quiet [of 100 100 False] by simp
  have "\<not> resetsCounter (Some (moveSan ?R (sanArgs ''Nf3'') (Node 100 (shuffleInfo False 100) [])))"
    by code_simp
  then have u: "\<not> resetsCounter (Some (moveSan ?R (sanArgs ''Nf3'')
      (getNodeAtPath (root ?s) (position ?s))))"
    unfolding cur .
  from makeMove_fifty_move_draw [OF r l n q u]
  have "\<exists>state'. makeMove ?R (sanArgs ''Nf3'') ?s = Inr state'
                \<and> result (headers state') = ''1/2-1/2''"
    by blast
  with r l n q u show ?thesis by (intro conjI)
qed

text \<open>
  C2 as stated fails on the fast path: in the tree of 101 halfmoves of the knights, with the
  cursor after 100 of them and the result \<open>*\<close>, \<^verbatim>\<open>makeMove("Nf3")\<close> finds the child and only moves
  the cursor, although 100 halfmoves without pawn move, capture or promotion lie on the line.
  And on the slow path \<^verbatim>\<open>is50MoveRule\<close> looks at the line before the new node is added: with 99
  such halfmoves on the line and header updates off, a new Ng8 is the hundredth on the line of
  the cursor, and the result stays \<open>*\<close>.
\<close>

theorem makeMove_fifty_move_counterexample:
  "resolves (root (shuffleState False 101 100)) (position (shuffleState False 101 100))
   \<and> moveLegal (tableRules [shuffleStep False 100]) (sanArgs ''Nf3'')
       (getNodeAtPath (root (shuffleState False 101 100)) (position (shuffleState False 101 100)))
   \<and> quietHalfmoves (nodesAlong (root (shuffleState False 101 100))
        (position (shuffleState False 101 100))) = 100
   \<and> makeMove (tableRules [shuffleStep False 100]) (sanArgs ''Nf3'') (shuffleState False 101 100)
       = Inr (shuffleState False 101 101)
   \<and> result (headers (shuffleState False 101 101)) = ''*''
   \<and> resolves (root (shuffleState False 99 99)) (position (shuffleState False 99 99))
   \<and> moveLegal (tableRules [shuffleStep False 99]) ((sanArgs ''Ng8'')\<lparr>changeHeaders := Some False\<rparr>)
       (getNodeAtPath (root (shuffleState False 99 99)) (position (shuffleState False 99 99)))
   \<and> \<not> moveExists (tableRules [shuffleStep False 99]) ((sanArgs ''Ng8'')\<lparr>changeHeaders := Some False\<rparr>)
       (getNodeAtPath (root (shuffleState False 99 99)) (position (shuffleState False 99 99)))
   \<and> quietHalfmoves (nodesAlong (root (shuffleState False 99 99))
        (position (shuffleState False 99 99))) = 99
   \<and> \<not> isl (makeMove (tableRules [shuffleStep False 99])
               ((sanArgs ''Ng8'')\<lparr>changeHeaders := Some False\<rparr>) (shuffleState False 99 99))
   \<and> quietHalfmoves
        (nodesAlong
           (root (projr (makeMove (tableRules [shuffleStep False 99])
              ((sanArgs ''Ng8'')\<lparr>changeHeaders := Some False\<rparr>) (shuffleState False 99 99))))
           (position (projr (makeMove (tableRules [shuffleStep False 99])
              ((sanArgs ''Ng8'')\<lparr>changeHeaders := Some False\<rparr>) (shuffleState False 99 99))))) = 100
   \<and> result (headers (projr (makeMove (tableRules [shuffleStep False 99])
         ((sanArgs ''Ng8'')\<lparr>changeHeaders := Some False\<rparr>) (shuffleState False 99 99)))) = ''*''"
proof -
  have first: "resolves (root (shuffleState False 101 100)) (position (shuffleState False 101 100))
   \<and> moveLegal (tableRules [shuffleStep False 100]) (sanArgs ''Nf3'')
       (getNodeAtPath (root (shuffleState False 101 100)) (position (shuffleState False 101 100)))
   \<and> quietHalfmoves (nodesAlong (root (shuffleState False 101 100))
        (position (shuffleState False 101 100))) = 100
   \<and> makeMove (tableRules [shuffleStep False 100]) (sanArgs ''Nf3'') (shuffleState False 101 100)
       = Inr (shuffleState False 101 101)
   \<and> result (headers (shuffleState False 101 101)) = ''*''"
  proof -
    let ?s = "shuffleState False 101 100" and ?R = "tableRules [shuffleStep False 100]"
    let ?cur = "Node 100 (shuffleInfo False 100) [Node 101 (shuffleInfo False 101) []]"
    have r: "resolves (root ?s) (position ?s)" by (rule shuffle_state_resolves) simp
    have "shuffleLine False 100 (101 - 100) = [Node 101 (shuffleInfo False 101) []]"
      by code_simp
    with shuffle_cursor [of 100 101 False]
    have cur: "getNodeAtPath (root ?s) (position ?s) = ?cur" by simp
    have "moveLegal ?R (sanArgs ''Nf3'') ?cur" by code_simp
    then have l: "moveLegal ?R (sanArgs ''Nf3'') (getNodeAtPath (root ?s) (position ?s))"
      unfolding cur .
    have "findIndex (\<lambda>n. san (info n) = Some (moveSan ?R (sanArgs ''Nf3'') ?cur)) (children ?cur)
            = int 0" by code_simp
    then have f: "findIndex (\<lambda>n. san (info n)
                    = Some (moveSan ?R (sanArgs ''Nf3'') (getNodeAtPath (root ?s) (position ?s))))
             (children (getNodeAtPath (root ?s) (position ?s))) = int 0"
      unfolding cur .
    have c: "changePosition (sanArgs ''Nf3'') \<noteq> Some False" by (simp add: sanArgs_def)
    have q: "quietHalfmoves (nodesAlong (root ?s) (position ?s)) = 100"
      using shuffle_quiet [of 100 101 False] by simp
    have "(101 :: nat) = Suc 100" by simp
    then have "replicate 100 (0 :: nat) @ [0] = replicate 101 0"
      by (simp only: replicate_Suc replicate_append_same)
    then have e: "?s\<lparr>position := position ?s @ [0]\<rparr> = shuffleState False 101 101"
      by (simp add: shuffleState_def)
    have m: "makeMove ?R (sanArgs ''Nf3'') ?s = Inr (shuffleState False 101 101)"
      using makeMove_fast_path [OF l f c] unfolding e .
    have h: "result (headers (shuffleState False 101 101)) = ''*''"
      by (simp add: shuffleState_def plainHeaders_def)
    from r l q m h show ?thesis by (intro conjI)
  qed
  have second: "resolves (root (shuffleState False 99 99)) (position (shuffleState False 99 99))
   \<and> moveLegal (tableRules [shuffleStep False 99]) ((sanArgs ''Ng8'')\<lparr>changeHeaders := Some False\<rparr>)
       (getNodeAtPath (root (shuffleState False 99 99)) (position (shuffleState False 99 99)))
   \<and> \<not> moveExists (tableRules [shuffleStep False 99]) ((sanArgs ''Ng8'')\<lparr>changeHeaders := Some False\<rparr>)
       (getNodeAtPath (root (shuffleState False 99 99)) (position (shuffleState False 99 99)))
   \<and> quietHalfmoves (nodesAlong (root (shuffleState False 99 99))
        (position (shuffleState False 99 99))) = 99
   \<and> \<not> isl (makeMove (tableRules [shuffleStep False 99])
               ((sanArgs ''Ng8'')\<lparr>changeHeaders := Some False\<rparr>) (shuffleState False 99 99))
   \<and> quietHalfmoves
        (nodesAlong
           (root (projr (makeMove (tableRules [shuffleStep False 99])
              ((sanArgs ''Ng8'')\<lparr>changeHeaders := Some False\<rparr>) (shuffleState False 99 99))))
           (position (projr (makeMove (tableRules [shuffleStep False 99])
              ((sanArgs ''Ng8'')\<lparr>changeHeaders := Some False\<rparr>) (shuffleState False 99 99))))) = 100
   \<and> result (headers (projr (makeMove (tableRules [shuffleStep False 99])
         ((sanArgs ''Ng8'')\<lparr>changeHeaders := Some False\<rparr>) (shuffleState False 99 99)))) = ''*''"
  proof -
    let ?s = "shuffleState False 99 99" and ?R = "tableRules [shuffleStep False 99]"
    let ?a = "(sanArgs ''Ng8'')\<lparr>changeHeaders := Some False\<rparr>"
    let ?cur = "Node 99 (shuffleInfo False 99) []"
    have r: "resolves (root ?s) (position ?s)" by (rule shuffle_state_resolves) simp
    have cur: "getNodeAtPath (root ?s) (position ?s) = ?cur"
      using shuffle_cursor [of 99 99 False] by simp
    have "moveLegal ?R ?a ?cur" by code_simp
    then have l: "moveLegal ?R ?a (getNodeAtPath (root ?s) (position ?s))" unfolding cur .
    have "\<not> moveExists ?R ?a ?cur" by code_simp
    then have n: "\<not> moveExists ?R ?a (getNodeAtPath (root ?s) (position ?s))" unfolding cur .
    have q: "quietHalfmoves (nodesAlong (root ?s) (position ?s)) = 99"
      using shuffle_quiet [of 99 99 False] by simp
    have "\<not> moveEnds ?R ?a ?cur" by code_simp
    then have e: "\<not> moveEnds ?R ?a (getNodeAtPath (root ?s) (position ?s))" unfolding cur .
    have "\<not> resetsCounter (Some (moveSan ?R ?a ?cur))" by code_simp
    then have u: "\<not> resetsCounter (Some (moveSan ?R ?a (getNodeAtPath (root ?s) (position ?s))))"
      unfolding cur .
    have ch: "(changeHeaders ?a \<noteq> Some False) = False" by (simp add: sanArgs_def)
    have cp: "changePosition ?a \<noteq> Some False" by (simp add: sanArgs_def)
    have nd: "\<not> drawValue (changeHeaders ?a \<noteq> Some False) (root ?s) (position ?s)
        (moveFen ?R ?a (getNodeAtPath (root ?s) (position ?s)))"
      unfolding ch using q by (simp add: drawValue_def)
    have h: "result (headers ?s) = ''*''" by (simp add: shuffleState_def plainHeaders_def)
    from makeMove_slow_effect [OF r l n] obtain state' k where
      m: "makeMove ?R ?a ?s = Inr state'"
      and ps: "position state' = (if changePosition ?a = Some False then position ?s
                                  else position ?s @ [k])"
      and sn: "san (info (getNodeAtPath (root state') (position ?s @ [k])))
                 = Some (moveSan ?R ?a (getNodeAtPath (root ?s) (position ?s)))"
      and ni: "map info (nodesAlong (root state') (position ?s @ [k]))
                 = map info (nodesAlong (root ?s) (position ?s))
                   @ [info (getNodeAtPath (root state') (position ?s @ [k]))]"
      and x: "\<not> drawValue (changeHeaders ?a \<noteq> Some False) (root ?s) (position ?s)
                 (moveFen ?R ?a (getNodeAtPath (root ?s) (position ?s)))
              \<longrightarrow> \<not> moveEnds ?R ?a (getNodeAtPath (root ?s) (position ?s))
              \<longrightarrow> result (headers state') = result (headers ?s)"
      by blast
    from x nd e h have res: "result (headers state') = ''*''" by simp
    from ps cp have ps': "position state' = position ?s @ [k]" by simp
    have "map info (nodesAlong (root state') (position state'))
            = map info (nodesAlong (root ?s) (position ?s)
                        @ [getNodeAtPath (root state') (position ?s @ [k])])"
      unfolding ps' using ni by simp
    then have "quietHalfmoves (nodesAlong (root state') (position state'))
            = quietHalfmoves (nodesAlong (root ?s) (position ?s)
                              @ [getNodeAtPath (root state') (position ?s @ [k])])"
      by (rule quietHalfmoves_info)
    also have "\<dots> = Suc (quietHalfmoves (nodesAlong (root ?s) (position ?s)))"
      using u sn by (simp add: quietHalfmoves_snoc)
    finally have qa: "quietHalfmoves (nodesAlong (root state') (position state')) = 100"
      unfolding q by simp
    have i: "\<not> isl (makeMove ?R ?a ?s)" unfolding m by simp
    have pj: "projr (makeMove ?R ?a ?s) = state'" unfolding m by simp
    from r l n q i qa res show ?thesis unfolding pj by (intro conjI)
  qed
  from first second show ?thesis by blast
qed

section \<open>Replaying a sequence of moves\<close>

lemma findIndex_bounds:
  "findIndex P xs \<noteq> -1 \<Longrightarrow>
     0 \<le> findIndex P xs \<and> nat (findIndex P xs) < length xs \<and> P (xs ! nat (findIndex P xs))"
proof (induction xs)
  case Nil
  then show ?case by simp
next
  case (Cons x xs)
  show ?case
  proof (cases "P x")
    case True
    then show ?thesis by simp
  next
    case False
    with Cons.prems have ne: "findIndex P xs \<noteq> -1" by (auto simp: Let_def split: if_splits)
    from Cons.IH [OF ne] have b: "0 \<le> findIndex P xs" "nat (findIndex P xs) < length xs"
      "P (xs ! nat (findIndex P xs))" by simp_all
    from b(1) have "nat (findIndex P xs + 1) = Suc (nat (findIndex P xs))" by linarith
    with False ne b show ?thesis by (simp add: Let_def)
  qed
qed

lemma findIndex_absent: "findIndex P xs = -1 \<Longrightarrow> x \<in> set xs \<Longrightarrow> \<not> P x"
proof (induction xs)
  case Nil
  then show ?case by simp
next
  case (Cons y ys)
  then show ?case
    using findIndex_bounds [of P ys] by (auto simp: Let_def split: if_splits)
qed

lemma findIndex_snoc_new:
  "(\<And>x. x \<in> set xs \<Longrightarrow> \<not> P x) \<Longrightarrow> P y \<Longrightarrow> findIndex P (xs @ [y]) = int (length xs)"
  by (induction xs) (auto simp: Let_def)

lemma findIndex_info:
  "map info cs = map info cs' \<Longrightarrow>
     findIndex (\<lambda>n. Q (info n)) cs = findIndex (\<lambda>n. Q (info n)) cs'"
proof (induction cs arbitrary: cs')
  case Nil
  then show ?case by simp
next
  case (Cons c cs)
  then obtain d ds where d: "cs' = d # ds" "info c = info d" "map info cs = map info ds"
    by (cases cs') auto
  from Cons.IH [OF d(3)] d(1,2) show ?case by simp
qed

lemma sameSpine_refl: "resolves r p \<Longrightarrow> sameSpine r r p"
  by (induction p arbitrary: r) auto

lemma sameSpine_trans: "sameSpine r r' p \<Longrightarrow> sameSpine r' r'' p \<Longrightarrow> sameSpine r r'' p"
proof (induction p arbitrary: r r' r'')
  case Nil
  then show ?case by simp
next
  case (Cons i p)
  from Cons.prems have l: "length (children r') = length (children r)"
    by (auto dest: arg_cong [where f = length])
  with Cons.prems Cons.IH [of "children r ! i" "children r' ! i" "children r'' ! i"]
  show ?case by auto
qed

lemma sameSpine_prefix: "sameSpine r r' (p @ s) \<Longrightarrow> sameSpine r r' p"
  by (induction p arbitrary: r r') (auto split: list.splits, (cases s; simp)+)

lemma sameSpine_resolves: "sameSpine r r' p \<Longrightarrow> resolves r p \<and> resolves r' p"
proof (induction p arbitrary: r r')
  case Nil
  show ?case by simp
next
  case (Cons i p)
  from Cons.prems have l: "length (children r') = length (children r)"
    by (auto dest: arg_cong [where f = length])
  with Cons.prems Cons.IH [of "children r ! i" "children r' ! i"] show ?case by auto
qed

lemma sameSpine_info: "sameSpine r r' p \<Longrightarrow> info (getNodeAtPath r' p) = info (getNodeAtPath r p)"
proof (induction p arbitrary: r r')
  case Nil
  then show ?case by simp
next
  case (Cons i p)
  from Cons.prems have l: "length (children r') = length (children r)"
    by (auto dest: arg_cong [where f = length])
  with Cons.prems Cons.IH [of "children r ! i" "children r' ! i"] show ?case by auto
qed

lemma sameSpine_children:
  "sameSpine r r' (p @ [i]) \<Longrightarrow>
     map info (children (getNodeAtPath r' p)) = map info (children (getNodeAtPath r p))"
proof (induction p arbitrary: r r')
  case Nil
  then show ?case by simp
next
  case (Cons j p)
  from Cons.prems have l: "length (children r') = length (children r)"
    by (auto dest: arg_cong [where f = length])
  with Cons.prems Cons.IH [of "children r ! j" "children r' ! j"] show ?case by auto
qed

lemma sameSpine_clonePath: "resolves r p \<Longrightarrow> sameSpine r (snd (clonePath nx r p)) p"
proof (induction p arbitrary: r nx)
  case Nil
  show ?case by simp
next
  case (Cons i p)
  then have i: "i < length (children r)" and r: "resolves (children r ! i) p" by auto
  have c: "children (snd (clonePath nx r (i # p)))
             = (children r)[i := snd (clonePath (Suc nx) (children r ! i) p)]"
    using i by (rule clonePath_children(3))
  have ii: "info (snd (clonePath (Suc nx) (children r ! i) p)) = info (children r ! i)"
    by (simp add: clonePath_root del: clonePath.simps)
  have "map info ((children r)[i := snd (clonePath (Suc nx) (children r ! i) p)])
          = (map info (children r))[i := info (children r ! i)]"
    by (simp add: map_update ii del: clonePath.simps)
  also have "\<dots> = map info (children r)"
    using i by (simp add: list_update_same_conv)
  finally have m: "map info (children (snd (clonePath nx r (i # p)))) = map info (children r)"
    unfolding c .
  from Cons.IH [OF r, of "Suc nx"] i m c show ?case
    by (simp add: clonePath_root del: clonePath.simps)
qed

lemma modifyChildren_root_info: "info (modifyNodeAtPath (modifyChildren g) r p) = info r"
  by (cases p) auto

lemma sameSpine_modifyChildren:
  "resolves r p \<Longrightarrow> sameSpine r (modifyNodeAtPath (modifyChildren g) r p) p"
proof (induction p arbitrary: r)
  case Nil
  show ?case by simp
next
  case (Cons i p)
  then have i: "i < length (children r)" and r: "resolves (children r ! i) p" by auto
  have "map info ((children r)[i := modifyNodeAtPath (modifyChildren g) (children r ! i) p])
          = (map info (children r))[i := info (children r ! i)]"
    by (simp add: map_update modifyChildren_root_info)
  also have "\<dots> = map info (children r)"
    using i by (simp add: list_update_same_conv)
  finally have m: "map info ((children r)[i := modifyNodeAtPath (modifyChildren g) (children r ! i) p])
          = map info (children r)" .
  from Cons.IH [OF r] i m show ?case by simp
qed

lemma moveLegal_info: "info n = info n' \<Longrightarrow> moveLegal R a n = moveLegal R a n'"
  by (simp add: moveLegal_def)

lemma moveSan_info: "info n = info n' \<Longrightarrow> moveSan R a n = moveSan R a n'"
  by (simp add: moveSan_def)

text \<open>One legal move on a state whose cursor resolves: the call returns a state, the cursor
  has one more index, which is where \<^verbatim>\<open>findIndex\<close> finds the notation of the move among the
  children in the new tree; the tree above and along the old cursor keeps its fields.\<close>

lemma makeMove_step:
  assumes res: "resolves (root s) (position s)"
    and legal: "moveLegal R a (getNodeAtPath (root s) (position s))"
    and cp: "changePosition a \<noteq> Some False"
  shows "\<exists>s1 k. makeMove R a s = Inr s1 \<and> position s1 = position s @ [k]
           \<and> sameSpine (root s) (root s1) (position s)
           \<and> resolves (root s1) (position s1)
           \<and> findIndex (\<lambda>n. san (info n) = Some (moveSan R a (getNodeAtPath (root s) (position s))))
                (children (getNodeAtPath (root s1) (position s))) = int k"
proof (cases "moveExists R a (getNodeAtPath (root s) (position s))")
  case True
  let ?cur = "getNodeAtPath (root s) (position s)"
  let ?idx = "findIndex (\<lambda>n. san (info n) = Some (moveSan R a ?cur)) (children ?cur)"
  from True have ne: "?idx \<noteq> -1" by (simp add: moveExists_def)
  from findIndex_bounds [OF ne] have b: "0 \<le> ?idx" "nat ?idx < length (children ?cur)"
    by simp_all
  from b(1) have ik: "?idx = int (nat ?idx)" by simp
  have mm: "makeMove R a s = Inr (s\<lparr>position := position s @ [nat ?idx]\<rparr>)"
    using legal ik cp by (rule makeMove_fast_path)
  have "resolves (root s) (position s @ [nat ?idx])"
    using res b(2) by (simp add: resolves_append)
  with mm ik res show ?thesis
    by (intro exI [of _ "s\<lparr>position := position s @ [nat ?idx]\<rparr>"] exI [of _ "nat ?idx"])
       (simp add: sameSpine_refl)
next
  case False
  let ?p = "position s" and ?r = "root s"
  let ?cur = "getNodeAtPath ?r ?p"
  from legal obtain pos mv where
    p: "positionFromFen R (fen (info ?cur)) = Some pos"
    and m: "resolveMove R pos (payload a) = Some mv" and sn: "makeSan R pos mv \<noteq> ''--''"
    and ms: "moveSan R a ?cur = makeSan R pos mv"
    by (rule moveLegalE)
  from False ms have n: "findIndex (\<lambda>n. san (info n) = Some (makeSan R pos mv)) (children ?cur) = -1"
    by (simp add: moveExists_def)
  let ?nx = "fst (clonePath (next_oid s) ?r ?p)"
  let ?c = "snd (clonePath (next_oid s) ?r ?p)"
  let ?new = "createNode ?nx (makeFen R (play R pos mv)) mv (makeSan R pos mv)
                (halfMoves (info ?cur) + 1) (arg_clock a)"
  let ?g = "\<lambda>cs. if mainline a = Some True then ?new # cs else cs @ [?new]"
  let ?r1 = "modifyNodeAtPath (modifyChildren ?g) ?c ?p"
  let ?k = "if mainline a = Some True then 0 else length (children ?cur)"
  note eq = makeMove_slow_path [OF res p m sn n]
  have rc: "resolves ?c ?p" using res by (simp add: clonePath_resolves)
  have cc: "children (getNodeAtPath ?c ?p) = children ?cur"
    using res by (rule clonePath_cursor_children)
  have g1: "getNodeAtPath ?r1 ?p = modifyChildren ?g (getNodeAtPath ?c ?p)"
    using rc by (rule getNodeAtPath_modify)
  have ch: "children (getNodeAtPath ?r1 ?p) = ?g (children ?cur)"
    unfolding g1 by (simp add: cc)
  have sp: "sameSpine ?r ?r1 ?p"
    using sameSpine_clonePath [OF res] sameSpine_modifyChildren [OF rc]
    by (rule sameSpine_trans)
  have "resolves ?r1 (?p @ [?k])"
    using rc by (simp add: resolves_modify_append cc)
  moreover have "findIndex (\<lambda>n. san (info n) = Some (makeSan R pos mv)) (?g (children ?cur)) = int ?k"
  proof (cases "mainline a = Some True")
    case True
    then show ?thesis by (simp add: createNode_def)
  next
    case False
    have "findIndex (\<lambda>n. san (info n) = Some (makeSan R pos mv)) (children ?cur @ [?new])
            = int (length (children ?cur))"
      using findIndex_absent [OF n]
      by (intro findIndex_snoc_new) (auto simp: createNode_def)
    with False show ?thesis by simp
  qed
  moreover have "\<exists>s1. makeMove R a s = Inr s1 \<and> root s1 = ?r1 \<and> position s1 = ?p @ [?k]"
    unfolding eq using cp by auto
  ultimately show ?thesis
    using sp ms ch by auto
qed

text \<open>The replay, from any cursor that resolves.\<close>

lemma replay_from_cursor:
  assumes "resolves (root s) (position s)" and "legalMoves R as s"
    and "\<forall>a \<in> set as. changePosition a \<noteq> Some False"
  shows "\<exists>s'. applyMoves R as s = Inr s'
           \<and> sameSpine (root s) (root s') (position s)
           \<and> applyMoves R as (s'\<lparr>position := position s\<rparr>) = Inr s'
           \<and> allFastPath R as (s'\<lparr>position := position s\<rparr>)"
  using assms
proof (induction as arbitrary: s)
  case Nil
  have "s\<lparr>position := position s\<rparr> = s" by simp
  with Nil show ?case by (simp add: sameSpine_refl)
next
  case (Cons a as)
  let ?p = "position s"
  let ?cur = "getNodeAtPath (root s) ?p"
  from Cons.prems(2) have legal: "moveLegal R a ?cur" by simp
  from Cons.prems(3) have cp: "changePosition a \<noteq> Some False"
    and cps: "\<forall>a \<in> set as. changePosition a \<noteq> Some False" by simp_all
  from makeMove_step [OF Cons.prems(1) legal cp] obtain s1 k where
    mm: "makeMove R a s = Inr s1" and ps: "position s1 = ?p @ [k]"
    and sp: "sameSpine (root s) (root s1) ?p"
    and rs: "resolves (root s1) (position s1)"
    and fi: "findIndex (\<lambda>n. san (info n) = Some (moveSan R a ?cur))
               (children (getNodeAtPath (root s1) ?p)) = int k"
    by blast
  from Cons.prems(2) mm have lg: "legalMoves R as s1" by simp
  from Cons.IH [OF rs lg cps] obtain s' where
    am: "applyMoves R as s1 = Inr s'"
    and sp1: "sameSpine (root s1) (root s') (position s1)"
    and rp: "applyMoves R as (s'\<lparr>position := position s1\<rparr>) = Inr s'"
    and fp: "allFastPath R as (s'\<lparr>position := position s1\<rparr>)"
    by blast
  let ?s2 = "s'\<lparr>position := ?p\<rparr>"
  let ?cur2 = "getNodeAtPath (root ?s2) (position ?s2)"
  from sp1 ps have sp1': "sameSpine (root s1) (root s') (?p @ [k])" by simp
  then have sp1p: "sameSpine (root s1) (root s') ?p" by (rule sameSpine_prefix)
  from sp sp1p have spf: "sameSpine (root s) (root s') ?p" by (rule sameSpine_trans)
  have ci: "info ?cur2 = info ?cur" using sameSpine_info [OF spf] by simp
  have lg2: "moveLegal R a ?cur2" using legal by (rule iffD2 [OF moveLegal_info [OF ci]])
  have sn2: "moveSan R a ?cur2 = moveSan R a ?cur" using ci by (rule moveSan_info)
  have "map info (children ?cur2) = map info (children (getNodeAtPath (root s1) ?p))"
    using sameSpine_children [OF sp1'] by simp
  then have "findIndex (\<lambda>n. san (info n) = Some (moveSan R a ?cur)) (children ?cur2)
        = findIndex (\<lambda>n. san (info n) = Some (moveSan R a ?cur))
            (children (getNodeAtPath (root s1) ?p))"
    by (rule findIndex_info [where Q = "\<lambda>i. san i = Some (moveSan R a ?cur)"])
  with fi sn2 have fi2: "findIndex (\<lambda>n. san (info n) = Some (moveSan R a ?cur2)) (children ?cur2)
        = int k" by simp
  have e: "?s2\<lparr>position := position ?s2 @ [k]\<rparr> = s'\<lparr>position := position s1\<rparr>"
    using ps by simp
  have m2: "makeMove R a ?s2 = Inr (s'\<lparr>position := position s1\<rparr>)"
    using makeMove_fast_path [OF lg2 fi2 cp] unfolding e .
  have "applyMoves R (a # as) s = Inr s'" using mm am by simp
  moreover have "applyMoves R (a # as) ?s2 = Inr s'" using m2 rp by simp
  moreover have "allFastPath R (a # as) ?s2"
    using fi2 m2 fp e by (simp add: Let_def)
  ultimately show ?case using spf by blast
qed

text \<open>The replay of a sequence of calls of \<^verbatim>\<open>makeMove\<close> from the root.\<close>

lemma makeMove_replay:
  assumes "position state = []" and "legalMoves R as state"
    and "\<forall>a \<in> set as. changePosition a \<noteq> Some False"
  shows "\<exists>state'. applyMoves R as state = Inr state'
           \<and> applyMoves R as (goToMove [] state') = Inr state'
           \<and> allFastPath R as (goToMove [] state')"
proof -
  from assms(1) have "resolves (root state) (position state)" by simp
  from replay_from_cursor [OF this assms(2,3)] obtain s' where
    "applyMoves R as state = Inr s'"
    "applyMoves R as (s'\<lparr>position := position state\<rparr>) = Inr s'"
    "allFastPath R as (s'\<lparr>position := position state\<rparr>)"
    by blast
  with assms(1) show ?thesis
    by (intro exI [of _ s']) (simp add: goToMove_def)
qed

text \<open>The first loop of \<^verbatim>\<open>makeMoves\<close> reads the tree only along the path it follows: in a tree
  that agrees with this one above and along that path, it follows the same path and goes on
  from its end with the moves that are left.\<close>

lemma fastLoop_follow:
  assumes "fastLoop R payload' pos p cur = Some (rest, pos', p', cur')"
  shows "\<exists>q. p' = p @ q \<and> resolves cur q \<and> cur' = getNodeAtPath cur q
           \<and> (\<forall>cur2 p2. sameSpine cur cur2 q \<longrightarrow>
                 fastLoop R payload' pos p2 cur2
                   = fastLoop R rest pos' (p2 @ q) (getNodeAtPath cur2 q))"
  using assms
proof (induction payload' arbitrary: pos p cur)
  case Nil
  then show ?case by (intro exI [of _ "[]"]) auto
next
  case (Cons s ss)
  from Cons.prems obtain m where m: "parseSanOrUci R pos s = Some m"
    by (auto split: option.splits)
  let ?P = "\<lambda>n. san (info n) = Some (makeSan R pos m)"
  let ?idx = "findIndex ?P (children cur)"
  show ?case
  proof (cases "?idx = -1")
    case True
    with Cons.prems m have "rest = s # ss" "pos' = pos" "p' = p" "cur' = cur"
      by (simp_all add: Let_def)
    then show ?thesis by (intro exI [of _ "[]"]) simp
  next
    case False
    from findIndex_bounds [OF False] have b: "0 \<le> ?idx" "nat ?idx < length (children cur)"
      by simp_all
    let ?k = "nat ?idx"
    from Cons.prems m False
    have rec: "fastLoop R ss (play R pos m) (p @ [?k]) (children cur ! ?k) = Some (rest, pos', p', cur')"
      by (simp add: Let_def)
    from Cons.IH [OF rec] obtain q where
      q: "p' = (p @ [?k]) @ q" "resolves (children cur ! ?k) q"
         "cur' = getNodeAtPath (children cur ! ?k) q"
      and tr: "\<And>cur2 p2. sameSpine (children cur ! ?k) cur2 q \<Longrightarrow>
                 fastLoop R ss (play R pos m) p2 cur2
                   = fastLoop R rest pos' (p2 @ q) (getNodeAtPath cur2 q)"
      by blast
    have "fastLoop R (s # ss) pos p2 cur2
            = fastLoop R rest pos' (p2 @ ?k # q) (getNodeAtPath cur2 (?k # q))"
      if sp: "sameSpine cur cur2 (?k # q)" for cur2 p2
    proof -
      from sp have mi: "map info (children cur2) = map info (children cur)"
        and sp': "sameSpine (children cur ! ?k) (children cur2 ! ?k) q" by simp_all
      from mi have l: "length (children cur2) = length (children cur)"
        by (auto dest: arg_cong [where f = length])
      have fi: "findIndex ?P (children cur2) = ?idx"
        using mi by (rule findIndex_info [where Q = "\<lambda>i. san i = Some (makeSan R pos m)"])
      have "fastLoop R (s # ss) pos p2 cur2
              = fastLoop R ss (play R pos m) (p2 @ [?k]) (children cur2 ! ?k)"
        using m False fi by (simp add: Let_def)
      also have "\<dots> = fastLoop R rest pos' ((p2 @ [?k]) @ q) (getNodeAtPath (children cur2 ! ?k) q)"
        using sp' by (rule tr)
      finally show ?thesis using b l by simp
    qed
    with q b show ?thesis by (intro exI [of _ "?k # q"]) simp
  qed
qed

text \<open>One move added by \<^verbatim>\<open>makeMoveOnTree\<close> at a cursor that resolves.\<close>

lemma makeMoveOnTree_step:
  assumes res: "resolves (root ms) (position ms)"
    and pos: "positionFromFen R (fen (info (getNodeAtPath (root ms) (position ms)))) = Some q0"
    and sn: "makeSan R q0 m \<noteq> ''--''"
  shows "\<exists>ms1 k. makeMoveOnTree R ms m False True ch ml None = Inr ms1
           \<and> position ms1 = position ms @ [k]
           \<and> sameSpine (root ms) (root ms1) (position ms)
           \<and> resolves (root ms1) (position ms1)
           \<and> findIndex (\<lambda>n. san (info n) = Some (makeSan R q0 m))
                (children (getNodeAtPath (root ms1) (position ms))) = int k"
proof -
  let ?p = "position ms" and ?r = "root ms"
  let ?cur = "getNodeAtPath ?r ?p"
  let ?P = "\<lambda>n. san (info n) = Some (makeSan R q0 m)"
  let ?i = "findIndex ?P (children ?cur)"
  note dc = drawCondition_resolves [OF res]
  show ?thesis
  proof (cases "?i = -1")
    case False
    from findIndex_bounds [OF False] have b: "0 \<le> ?i" "nat ?i < length (children ?cur)"
      by simp_all
    let ?k = "nat ?i"
    let ?g = "\<lambda>cs. cs[?k := Node (next_oid ms) (info (cs ! ?k)) (children (cs ! ?k))]"
    let ?r1 = "modifyNodeAtPath (modifyChildren ?g) ?r ?p"
    have e: "\<exists>ms1. makeMoveOnTree R ms m False True ch ml None = Inr ms1
               \<and> root ms1 = ?r1 \<and> position ms1 = ?p @ [?k]"
      unfolding makeMoveOnTree_def using pos sn False by (simp add: dc Let_def)
    have sp: "sameSpine ?r ?r1 ?p" using res by (rule sameSpine_modifyChildren)
    have g1: "getNodeAtPath ?r1 ?p = modifyChildren ?g ?cur"
      using res by (rule getNodeAtPath_modify)
    have ch: "children (getNodeAtPath ?r1 ?p) = ?g (children ?cur)"
      unfolding g1 by simp
    have rs: "resolves ?r1 (?p @ [?k])"
      using res b by (simp add: resolves_modify_append)
    have "map info (?g (children ?cur)) = (map info (children ?cur))[?k := info (children ?cur ! ?k)]"
      by (simp add: map_update)
    also have "\<dots> = map info (children ?cur)"
      using b by (simp add: list_update_same_conv)
    finally have "findIndex ?P (?g (children ?cur)) = ?i"
      by (rule findIndex_info [where Q = "\<lambda>i. san i = Some (makeSan R q0 m)"])
    with b have fi: "findIndex ?P (children (getNodeAtPath ?r1 ?p)) = int ?k"
      unfolding ch by simp
    from e sp rs fi show ?thesis by auto
  next
    case True
    let ?new = "createNode (next_oid ms) (makeFen R (play R q0 m)) m (makeSan R q0 m)
                  (halfMoves (info ?cur) + 1) None"
    let ?g = "\<lambda>cs. if ml then ?new # cs else cs @ [?new]"
    let ?r1 = "modifyNodeAtPath (modifyChildren ?g) ?r ?p"
    let ?k = "if ml then 0 else length (children ?cur)"
    have e: "\<exists>ms1. makeMoveOnTree R ms m False True ch ml None = Inr ms1
               \<and> root ms1 = ?r1 \<and> position ms1 = ?p @ [?k]"
      unfolding makeMoveOnTree_def using pos sn True by (simp add: dc Let_def)
    have sp: "sameSpine ?r ?r1 ?p" using res by (rule sameSpine_modifyChildren)
    have g1: "getNodeAtPath ?r1 ?p = modifyChildren ?g ?cur"
      using res by (rule getNodeAtPath_modify)
    have ch: "children (getNodeAtPath ?r1 ?p) = ?g (children ?cur)"
      unfolding g1 by simp
    have rs: "resolves ?r1 (?p @ [?k])"
      using res by (simp add: resolves_modify_append)
    have fi: "findIndex ?P (?g (children ?cur)) = int ?k"
    proof (cases ml)
      case True
      then show ?thesis by (simp add: createNode_def)
    next
      case False
      have "findIndex ?P (children ?cur @ [?new]) = int (length (children ?cur))"
        using findIndex_absent [OF True]
        by (intro findIndex_snoc_new) (auto simp: createNode_def)
      with False show ?thesis by simp
    qed
    from e sp rs fi ch show ?thesis by auto
  qed
qed

text \<open>The second loop of \<^verbatim>\<open>makeMoves\<close> on legal moves: in the tree it builds, the first loop finds
  every one of these moves, along the path the cursor has taken.\<close>

lemma slowLoop_replay:
  assumes "resolves (root ms) (position ms)" and "slowLegal R ml ch rest pos ms"
  shows "\<exists>ms' q pe. slowLoop R ml ch rest pos ms = Inr ms'
           \<and> position ms' = position ms @ q
           \<and> sameSpine (root ms) (root ms') (position ms)
           \<and> resolves (root ms') (position ms')
           \<and> (\<forall>p2. fastLoop R rest pos p2 (getNodeAtPath (root ms') (position ms))
                      = Some ([], pe, p2 @ q, getNodeAtPath (root ms') (position ms')))"
  using assms
proof (induction rest arbitrary: pos ms)
  case Nil
  then show ?case
    by (intro exI [of _ ms] exI [of _ "[]"] exI [of _ pos]) (simp add: sameSpine_refl)
next
  case (Cons s ss)
  let ?p = "position ms"
  let ?cur = "getNodeAtPath (root ms) ?p"
  from Cons.prems(2) obtain m q0 where m: "parseSanOrUci R pos s = Some m"
    and q0: "positionFromFen R (fen (info ?cur)) = Some q0"
    by (auto split: option.splits)
  from Cons.prems(2) m q0 have sn: "makeSan R q0 m \<noteq> ''--''"
    and co: "makeSan R pos m = makeSan R q0 m" by simp_all
  from makeMoveOnTree_step [OF Cons.prems(1) q0 sn, of ch ml] obtain ms1 k where
    mt: "makeMoveOnTree R ms m False True ch ml None = Inr ms1"
    and ps: "position ms1 = ?p @ [k]"
    and sp: "sameSpine (root ms) (root ms1) ?p"
    and rs: "resolves (root ms1) (position ms1)"
    and fi: "findIndex (\<lambda>n. san (info n) = Some (makeSan R q0 m))
               (children (getNodeAtPath (root ms1) ?p)) = int k"
    by blast
  from Cons.prems(2) m q0 mt have lg: "slowLegal R ml ch ss (play R pos m) ms1" by simp
  from Cons.IH [OF rs lg] obtain ms' q pe where
    sl: "slowLoop R ml ch ss (play R pos m) ms1 = Inr ms'"
    and ps': "position ms' = position ms1 @ q"
    and sp1: "sameSpine (root ms1) (root ms') (position ms1)"
    and rs': "resolves (root ms') (position ms')"
    and fl: "\<And>p2. fastLoop R ss (play R pos m) p2 (getNodeAtPath (root ms') (position ms1))
                      = Some ([], pe, p2 @ q, getNodeAtPath (root ms') (position ms'))"
    by blast
  from sp1 ps have sp1': "sameSpine (root ms1) (root ms') (?p @ [k])" by simp
  then have sp1p: "sameSpine (root ms1) (root ms') ?p" by (rule sameSpine_prefix)
  from sp sp1p have spf: "sameSpine (root ms) (root ms') ?p" by (rule sameSpine_trans)
  let ?cur' = "getNodeAtPath (root ms') ?p"
  have "map info (children ?cur') = map info (children (getNodeAtPath (root ms1) ?p))"
    using sp1' by (rule sameSpine_children)
  then have "findIndex (\<lambda>n. san (info n) = Some (makeSan R q0 m)) (children ?cur')
        = findIndex (\<lambda>n. san (info n) = Some (makeSan R q0 m))
            (children (getNodeAtPath (root ms1) ?p))"
    by (rule findIndex_info [where Q = "\<lambda>i. san i = Some (makeSan R q0 m)"])
  with fi co have fi': "findIndex (\<lambda>n. san (info n) = Some (makeSan R pos m)) (children ?cur')
        = int k" by simp
  from sameSpine_resolves [OF sp1'] have "resolves (root ms') (?p @ [k])" by simp
  from getNodeAtPath_snoc [OF this]
  have gk: "getNodeAtPath (root ms') (?p @ [k]) = children ?cur' ! k" by simp
  have "fastLoop R (s # ss) pos p2 ?cur'
          = Some ([], pe, p2 @ k # q, getNodeAtPath (root ms') (position ms'))" for p2
  proof -
    have "fastLoop R (s # ss) pos p2 ?cur'
            = fastLoop R ss (play R pos m) (p2 @ [k]) (children ?cur' ! k)"
      using m fi' by (simp add: Let_def)
    also have "\<dots> = Some ([], pe, (p2 @ [k]) @ q, getNodeAtPath (root ms') (position ms'))"
      using fl [of "p2 @ [k]"] unfolding ps gk .
    finally show ?thesis by simp
  qed
  moreover have "slowLoop R ml ch (s # ss) pos ms = Inr ms'" using m mt sl by simp
  moreover have "position ms' = ?p @ k # q" using ps ps' by simp
  ultimately show ?case using spf rs' by blast
qed

lemma sameSpine_root_info: "sameSpine r r' q \<Longrightarrow> info r' = info r"
  by (cases q) simp_all

text \<open>The replay of a batch from the root.\<close>

lemma makeMoves_replay:
  assumes p0: "position state = []" and legal: "batchLegal R payload' ml ch state"
  shows "\<exists>state'. makeMoves R payload' ml ch state = Inr state'
           \<and> batchFastPath R payload' (goToMove [] state')
           \<and> makeMoves R payload' ml ch (goToMove [] state') = Inr state'"
proof -
  let ?r = "root state"
  from legal p0 obtain pos where pos: "positionFromFen R (fen (info ?r)) = Some pos"
    by (auto simp: batchLegal_def Let_def split: option.splits)
  from legal p0 pos obtain rest pos' p' cur' where
    fl: "fastLoop R payload' pos [] ?r = Some (rest, pos', p', cur')"
    by (auto simp: batchLegal_def Let_def split: option.splits)
  from fastLoop_follow [OF fl] obtain q where q: "p' = q" "resolves ?r q"
    and tr: "\<And>cur2 p2. sameSpine ?r cur2 q \<Longrightarrow>
               fastLoop R payload' pos p2 cur2 = fastLoop R rest pos' (p2 @ q) (getNodeAtPath cur2 q)"
    by auto
  show ?thesis
  proof (cases "rest = []")
    case True
    let ?s' = "state\<lparr>position := q\<rparr>"
    have m1: "makeMoves R payload' ml ch state = Inr ?s'"
      using p0 pos fl q True by (simp add: makeMoves_def Let_def)
    have g: "goToMove [] ?s' = state" using p0 by (simp add: goToMove_def)
    have "batchFastPath R payload' state"
      using p0 pos fl True by (simp add: batchFastPath_def Let_def)
    with m1 g show ?thesis by (intro exI [of _ ?s']) simp
  next
    case False
    let ?nx = "fst (clonePath (next_oid state) ?r q)"
    let ?c = "snd (clonePath (next_oid state) ?r q)"
    let ?ms = "state\<lparr>root := ?c, position := q, dirty := True, next_oid := ?nx\<rparr>"
    have rc: "resolves (root ?ms) (position ?ms)"
      using q(2) by (simp add: clonePath_resolves)
    have lg: "slowLegal R (ml = Some True) (ch \<noteq> Some False) rest pos' ?ms"
      using legal p0 pos fl q by (simp add: batchLegal_def Let_def case_prod_beta)
    from slowLoop_replay [OF rc lg] obtain ms' q' pe where
      sl: "slowLoop R (ml = Some True) (ch \<noteq> Some False) rest pos' ?ms = Inr ms'"
      and ps: "position ms' = q @ q'"
      and sp: "sameSpine ?c (root ms') q"
      and fl2: "\<And>p2. fastLoop R rest pos' p2 (getNodeAtPath (root ms') q)
                  = Some ([], pe, p2 @ q', getNodeAtPath (root ms') (position ms'))"
      by auto
    let ?s' = "state\<lparr>root := root ms', position := position ms', headers := headers ms',
                     dirty := dirty ms', next_oid := next_oid ms'\<rparr>"
    have m1: "makeMoves R payload' ml ch state = Inr ?s'"
      using p0 pos fl q False sl by (simp add: makeMoves_def Let_def case_prod_beta)
    have spf: "sameSpine ?r (root ms') q"
      using sameSpine_clonePath [OF q(2)] sp by (rule sameSpine_trans)
    have ri: "info (root ms') = info ?r" using spf by (rule sameSpine_root_info)
    have fl3: "fastLoop R payload' pos [] (root ms')
                 = Some ([], pe, position ms', getNodeAtPath (root ms') (position ms'))"
      using tr [OF spf, of "[]"] fl2 [of q] ps by simp
    have e: "(goToMove [] ?s')\<lparr>position := position ms'\<rparr> = ?s'"
      by (simp add: goToMove_def)
    have m2: "makeMoves R payload' ml ch (goToMove [] ?s') = Inr ?s'"
      using pos fl3 ri e by (simp add: makeMoves_def Let_def goToMove_def)
    have bf: "batchFastPath R payload' (goToMove [] ?s')"
      using pos fl3 ri by (simp add: batchFastPath_def Let_def goToMove_def)
    from m1 m2 bf show ?thesis by (intro exI [of _ ?s']) simp
  qed
qed

text \<open>
  C9. For every sequence of legal moves applied from the root, call by call with \<^verbatim>\<open>makeMove\<close>
  (the cursor following each move) or as one batch with \<^verbatim>\<open>makeMoves\<close>: the sequence applies
  without failure; after the cursor is set back to the root, applying the same sequence again
  takes the fast path at every move. Each call of \<^verbatim>\<open>makeMove\<close> returns the state it was given
  with only one index appended to the cursor, and \<^verbatim>\<open>makeMoves\<close> finds every move in its first
  loop and returns the state it was given with the cursor that loop reached (the same root
  object, no node cloned, no identity allocated). The replay ends in exactly the state the
  first application ended in: the same root, the same cursor, hence the same node.
\<close>

theorem replay_takes_fast_path:
  assumes "position state = []"
  shows "(legalMoves R as state \<and> (\<forall>a \<in> set as. changePosition a \<noteq> Some False) \<longrightarrow>
            (\<exists>state'. applyMoves R as state = Inr state'
               \<and> applyMoves R as (goToMove [] state') = Inr state'
               \<and> allFastPath R as (goToMove [] state')))
       \<and> (batchLegal R payload' ml ch state \<longrightarrow>
            (\<exists>state'. makeMoves R payload' ml ch state = Inr state'
               \<and> batchFastPath R payload' (goToMove [] state')
               \<and> makeMoves R payload' ml ch (goToMove [] state') = Inr state'))"
  using makeMove_replay [OF assms] makeMoves_replay [OF assms] by blast

theorem replay_takes_fast_path_witness:
  "position (shuffleState False 0 0) = []
   \<and> legalMoves (tableRules openingTable) [sanArgs ''e4'', sanArgs ''e5'', sanArgs ''Nf3'']
       (shuffleState False 0 0)
   \<and> map changePosition [sanArgs ''e4'', sanArgs ''e5'', sanArgs ''Nf3''] = [None, None, None]
   \<and> batchLegal (tableRules openingTable) [''e4'', ''e5'', ''Nf3''] None None
       (shuffleState False 0 0)
   \<and> (\<exists>state'. applyMoves (tableRules openingTable)
                   [sanArgs ''e4'', sanArgs ''e5'', sanArgs ''Nf3''] (shuffleState False 0 0)
                 = Inr state'
         \<and> applyMoves (tableRules openingTable)
             [sanArgs ''e4'', sanArgs ''e5'', sanArgs ''Nf3''] (goToMove [] state') = Inr state'
         \<and> allFastPath (tableRules openingTable)
             [sanArgs ''e4'', sanArgs ''e5'', sanArgs ''Nf3''] (goToMove [] state'))
   \<and> (\<exists>state'. makeMoves (tableRules openingTable) [''e4'', ''e5'', ''Nf3''] None None
                   (shuffleState False 0 0) = Inr state'
         \<and> batchFastPath (tableRules openingTable) [''e4'', ''e5'', ''Nf3''] (goToMove [] state')
         \<and> makeMoves (tableRules openingTable) [''e4'', ''e5'', ''Nf3''] None None
             (goToMove [] state') = Inr state')"
proof -
  have p: "position (shuffleState False 0 0) = []" by code_simp
  have l: "legalMoves (tableRules openingTable) [sanArgs ''e4'', sanArgs ''e5'', sanArgs ''Nf3'']
       (shuffleState False 0 0)" by code_simp
  have c: "\<forall>a \<in> set [sanArgs ''e4'', sanArgs ''e5'', sanArgs ''Nf3'']. changePosition a \<noteq> Some False"
    by (simp add: sanArgs_def)
  have m: "map changePosition [sanArgs ''e4'', sanArgs ''e5'', sanArgs ''Nf3''] = [None, None, None]"
    by (simp add: sanArgs_def)
  have b: "batchLegal (tableRules openingTable) [''e4'', ''e5'', ''Nf3''] None None
       (shuffleState False 0 0)" by code_simp
  note concl = replay_takes_fast_path [OF p, of "tableRules openingTable"
      "[sanArgs ''e4'', sanArgs ''e5'', sanArgs ''Nf3'']" "[''e4'', ''e5'', ''Nf3'']" None None]
  from concl [THEN conjunct1, THEN mp, OF conjI [OF l c]]
       concl [THEN conjunct2, THEN mp, OF b] p l m b
  show ?thesis by (intro conjI)
qed

section \<open>The two scenarios of the PGN codec\<close>

text \<open>
  C4 (as amended). For every rules engine in which \<open>e4\<close>, then \<open>e5\<close>, then \<open>Nf3\<close> are legal from
  the standard initial position, with these notations: from the default tree, after \<open>e4\<close> as
  main line, \<open>e5\<close> not as main line and \<open>Nf3\<close> as main line, the cursor is \<open>[0, 0, 0]\<close> and
  \<^verbatim>\<open>copyVariationPgn\<close> with that path (\<^verbatim>\<open>getPGN\<close> without headers, without variations, along the
  path) yields exactly \<open>1. e4 e5 2. Nf3\<close>: the result token is appended only when headers are
  given.
\<close>

theorem copyVariationPgn_scenario:
  assumes "positionFromFen R INITIAL_FEN = Some p0" and "turn R p0 = White"
    and "parseSan R p0 ''e4'' = Some m1" and "makeSan R p0 m1 = ''e4''"
    and "positionFromFen R (makeFen R (play R p0 m1)) = Some p1"
    and "parseSan R p1 ''e5'' = Some m2" and "makeSan R p1 m2 = ''e5''"
    and "positionFromFen R (makeFen R (play R p1 m2)) = Some p2"
    and "parseSan R p2 ''Nf3'' = Some m3" and "makeSan R p2 m3 = ''Nf3''"
  shows "\<not> isl (applyMoves R scenarioMoves (defaultTree R 0 None None))
   \<and> position (projr (applyMoves R scenarioMoves (defaultTree R 0 None None))) = [0, 0, 0]
   \<and> copyVariationPgn E [0, 0, 0]
        (projr (applyMoves R scenarioMoves (defaultTree R 0 None None)))
       = Inr ''1. e4 e5 2. Nf3''"
proof -
  have "\<exists>h. applyMoves R scenarioMoves (defaultTree R 0 None None)
     = Inr \<lparr>root =
               Node 6
                \<lparr>fen = INITIAL_FEN, move = None, san = None,
                   score = None, depth = None, halfMoves = 0, shapes = [],
                   annotations = [], comment = [], clock = None\<rparr>
                [Node 7
                  \<lparr>fen = makeFen R (play R p0 m1), move = Some m1,
                     san = Some ''e4'', score = None, depth = None,
                     halfMoves = 1, shapes = [], annotations = [],
                     comment = [], clock = None\<rparr>
                  [Node 8
                    \<lparr>fen = makeFen R (play R p1 m2),
                       move = Some m2, san = Some ''e5'', score = None,
                       depth = None, halfMoves = 2, shapes = [],
                       annotations = [], comment = [], clock = None\<rparr>
                    [Node 9
                      \<lparr>fen = makeFen R (play R p2 m3),
                         move = Some m3, san = Some ''Nf3'', score = None,
                         depth = None, halfMoves = 3, shapes = [],
                         annotations = [], comment = [], clock = None\<rparr>
                      []]]],
               headers = h,
               position = [0, 0, 0], dirty = True, report = \<lparr>inProgress = False\<rparr>,
               next_oid = 10\<rparr>"
    using assms
    by (simp add: scenarioMoves_def moveArgs_def defaultTree_def makeMove_def makeMoveOnTree_def
       resolveMove_def drawCondition_resolves createNode_def Let_def modifyChildren_def)
  then obtain h where "applyMoves R scenarioMoves (defaultTree R 0 None None)
     = Inr \<lparr>root =
               Node 6
                \<lparr>fen = INITIAL_FEN, move = None, san = None,
                   score = None, depth = None, halfMoves = 0, shapes = [],
                   annotations = [], comment = [], clock = None\<rparr>
                [Node 7
                  \<lparr>fen = makeFen R (play R p0 m1), move = Some m1,
                     san = Some ''e4'', score = None, depth = None,
                     halfMoves = 1, shapes = [], annotations = [],
                     comment = [], clock = None\<rparr>
                  [Node 8
                    \<lparr>fen = makeFen R (play R p1 m2),
                       move = Some m2, san = Some ''e5'', score = None,
                       depth = None, halfMoves = 2, shapes = [],
                       annotations = [], comment = [], clock = None\<rparr>
                    [Node 9
                      \<lparr>fen = makeFen R (play R p2 m3),
                         move = Some m3, san = Some ''Nf3'', score = None,
                         depth = None, halfMoves = 3, shapes = [],
                         annotations = [], comment = [], clock = None\<rparr>
                      []]]],
               headers = h,
               position = [0, 0, 0], dirty = True, report = \<lparr>inProgress = False\<rparr>,
               next_oid = 10\<rparr>" by blast
  then show ?thesis
    by (simp add: copyVariationPgn_def getPGN.simps pgnLoop.simps getMoveText_def
        moveTextOptions_def concatResults_def showInt_def trim_def isSpaceChar_def
        newline_def)
qed

theorem copyVariationPgn_scenario_witness:
  "positionFromFen (tableRules openingTable) INITIAL_FEN = Some INITIAL_FEN
   \<and> parseSan (tableRules openingTable) INITIAL_FEN ''e4'' = Some (NormalMove 12 28 None)
   \<and> parseSan (tableRules openingTable) FEN_e4 ''e5'' = Some (NormalMove 52 36 None)
   \<and> parseSan (tableRules openingTable) FEN_e4_e5 ''Nf3'' = Some (NormalMove 6 21 None)
   \<and> position (projr (applyMoves (tableRules openingTable) scenarioMoves
                  (defaultTree (tableRules openingTable) 0 None None))) = [0, 0, 0]
   \<and> copyVariationPgn plainPrinting [0, 0, 0]
        (projr (applyMoves (tableRules openingTable) scenarioMoves
                  (defaultTree (tableRules openingTable) 0 None None)))
       = Inr ''1. e4 e5 2. Nf3''"
proof -
  let ?R = "tableRules openingTable"
  have h1: "positionFromFen ?R INITIAL_FEN = Some INITIAL_FEN" by code_simp
  have h2: "turn ?R INITIAL_FEN = White" by code_simp
  have h3: "parseSan ?R INITIAL_FEN ''e4'' = Some (NormalMove 12 28 None)" by code_simp
  have h4: "makeSan ?R INITIAL_FEN (NormalMove 12 28 None) = ''e4''" by code_simp
  have h5: "positionFromFen ?R (makeFen ?R (play ?R INITIAL_FEN (NormalMove 12 28 None))) = Some FEN_e4"
    by code_simp
  have h6: "parseSan ?R FEN_e4 ''e5'' = Some (NormalMove 52 36 None)" by code_simp
  have h7: "makeSan ?R FEN_e4 (NormalMove 52 36 None) = ''e5''" by code_simp
  have h8: "positionFromFen ?R (makeFen ?R (play ?R FEN_e4 (NormalMove 52 36 None))) = Some FEN_e4_e5"
    by code_simp
  have h9: "parseSan ?R FEN_e4_e5 ''Nf3'' = Some (NormalMove 6 21 None)" by code_simp
  have h10: "makeSan ?R FEN_e4_e5 (NormalMove 6 21 None) = ''Nf3''" by code_simp
  note concl = copyVariationPgn_scenario [OF h1 h2 h3 h4 h5 h6 h7 h8 h9 h10, of plainPrinting]
  from concl have a: "position (projr (applyMoves ?R scenarioMoves (defaultTree ?R 0 None None)))
      = [0, 0, 0]" by (elim conjE)
  from concl have b: "copyVariationPgn plainPrinting [0, 0, 0]
        (projr (applyMoves ?R scenarioMoves (defaultTree ?R 0 None None)))
       = Inr ''1. e4 e5 2. Nf3''" by (elim conjE)
  from h1 h3 h6 h9 a b show ?thesis by (intro conjI)
qed

text \<open>C4 as stated fails: the text has no result token \<open>*\<close>. The rules engine is the table of
  the opening moves, which answers as \<^verbatim>\<open>chessops\<close> does on the positions of the scenario.\<close>

theorem copyVariationPgn_scenario_counterexample:
  "copyVariationPgn plainPrinting [0, 0, 0]
        (projr (applyMoves (tableRules openingTable) scenarioMoves
                  (defaultTree (tableRules openingTable) 0 None None)))
       \<noteq> Inr ''1. e4 e5 2. Nf3 *''"
  by code_simp

text \<open>
  C7. For every rules engine in which the moves of \<open>1. e4 e5 (1... c5 2. Nf3) 2. Nf3\<close> are legal
  from the standard initial position, with these notations: decoding the tokens of that text
  from the default initial position, as \<^verbatim>\<open>parsePGN\<close> calls \<^verbatim>\<open>innerParsePGN\<close>, succeeds and stops at
  the outcome token. The tree has six nodes: the root has one child; the main line is e4, e5,
  Nf3, each at index 0, and ends there; the node of e4 has exactly two children, e5 and after
  it c5; below c5 there is one node, Nf3, with no children; and the ply counter of every child
  is that of its parent plus 1.
\<close>

theorem innerParsePGN_variation_scenario:
  assumes "positionFromFen R INITIAL_FEN = Some p0" and "turn R p0 = White"
    and "parseSan R p0 ''e4'' = Some m1" and "makeSan R p0 m1 = ''e4''"
    and "parseSan R (play R p0 m1) ''e5'' = Some m2" and "makeSan R (play R p0 m1) m2 = ''e5''"
    and "parseSan R (play R p0 m1) ''c5'' = Some m3" and "makeSan R (play R p0 m1) m3 = ''c5''"
    and "parseSan R (play R (play R p0 m1) m3) ''Nf3'' = Some m4"
    and "makeSan R (play R (play R p0 m1) m3) m4 = ''Nf3''"
    and "parseSan R (play R (play R p0 m1) m2) ''Nf3'' = Some m5"
    and "makeSan R (play R (play R p0 m1) m2) m5 = ''Nf3''"
  shows "\<not> isl (innerParsePGN R A 0 sicilianTokens INITIAL_FEN 0 0 None (positionFromFen R INITIAL_FEN))
   \<and> snd (projr (innerParsePGN R A 0 sicilianTokens INITIAL_FEN 0 0 None
                   (positionFromFen R INITIAL_FEN))) = 7
   \<and> (let r = root (fst (projr (innerParsePGN R A 0 sicilianTokens INITIAL_FEN 0 0 None
                (positionFromFen R INITIAL_FEN))))
      in nodeCount r = 6
         \<and> length (children r) = 1
         \<and> mainlineSans r = [Some ''e4'', Some ''e5'', Some ''Nf3'']
         \<and> resolves r [0, 0, 0]
         \<and> children (getNodeAtPath r [0, 0, 0]) = []
         \<and> map (\<lambda>c. san (info c)) (children (getNodeAtPath r [0])) = [Some ''e5'', Some ''c5'']
         \<and> length (children (getNodeAtPath r [0, 0])) = 1
         \<and> mainlineSans (getNodeAtPath r [0, 1]) = [Some ''Nf3'']
         \<and> length (children (getNodeAtPath r [0, 1])) = 1
         \<and> children (getNodeAtPath r [0, 1, 0]) = []
         \<and> halfMoves (info r) = 0
         \<and> pliesConsecutive r)"
proof -
  have "innerParsePGN R A 0 sicilianTokens INITIAL_FEN 0 0 None (positionFromFen R INITIAL_FEN)
     = Inr (\<lparr>root =
               Node 0
                \<lparr>fen = trim INITIAL_FEN, move = None, san = None,
                   score = None, depth = None, halfMoves = 0, shapes = [],
                   annotations = [], comment = [], clock = None\<rparr>
                [Node 1
                  \<lparr>fen = makeFen R (play R p0 m1), move = Some m1,
                     san = Some ''e4'', score = None, depth = None,
                     halfMoves = 1, shapes = [], annotations = [],
                     comment = [], clock = None\<rparr>
                  [Node 2
                    \<lparr>fen = makeFen R (play R (play R p0 m1) m2),
                       move = Some m2, san = Some ''e5'', score = None,
                       depth = None, halfMoves = 2, shapes = [],
                       annotations = [], comment = [], clock = None\<rparr>
                    [Node 6
                      \<lparr>fen = makeFen R (play R (play R (play R p0 m1) m2) m5),
                         move = Some m5, san = Some ''Nf3'', score = None,
                         depth = None, halfMoves = 3, shapes = [],
                         annotations = [], comment = [], clock = None\<rparr>
                      []],
                   Node 4
                    \<lparr>fen = makeFen R (play R (play R p0 m1) m3),
                       move = Some m3, san = Some ''c5'', score = None,
                       depth = None, halfMoves = 2, shapes = [],
                       annotations = [], comment = [], clock = None\<rparr>
                    [Node 5
                      \<lparr>fen = makeFen R (play R (play R (play R p0 m1) m3) m4),
                         move = Some m4, san = Some ''Nf3'', score = None,
                         depth = None, halfMoves = 3, shapes = [],
                         annotations = [], comment = [], clock = None\<rparr>
                      []]]],
               headers = plainHeaders,
               position = [], dirty = False, report = \<lparr>inProgress = False\<rparr>,
               next_oid = 7\<rparr>, 7)"
    using assms
    by (simp add: innerParsePGN_def sicilianTokens_def parseLoop.simps findClose.simps pushMove_def
       attachVariation_def startParse_def defaultTree_def createNode_def Let_def
       modifyChildren_def modifyInfo_def plainHeaders_def)
  then show ?thesis by (simp add: Let_def)
qed

theorem innerParsePGN_variation_scenario_witness:
  "positionFromFen (tableRules openingTable) INITIAL_FEN = Some INITIAL_FEN
   \<and> parseSan (tableRules openingTable) INITIAL_FEN ''e4'' = Some (NormalMove 12 28 None)
   \<and> parseSan (tableRules openingTable) FEN_e4 ''e5'' = Some (NormalMove 52 36 None)
   \<and> parseSan (tableRules openingTable) FEN_e4 ''c5'' = Some (NormalMove 50 34 None)
   \<and> parseSan (tableRules openingTable) FEN_e4_c5 ''Nf3'' = Some (NormalMove 6 21 None)
   \<and> parseSan (tableRules openingTable) FEN_e4_e5 ''Nf3'' = Some (NormalMove 6 21 None)
   \<and> \<not> isl (innerParsePGN (tableRules openingTable) basicAnnotations 0 sicilianTokens INITIAL_FEN
               0 0 None (positionFromFen (tableRules openingTable) INITIAL_FEN))
   \<and> snd (projr (innerParsePGN (tableRules openingTable) basicAnnotations 0 sicilianTokens
                   INITIAL_FEN 0 0 None (positionFromFen (tableRules openingTable) INITIAL_FEN))) = 7"
proof -
  let ?R = "tableRules openingTable"
  let ?e4 = "NormalMove 12 28 None" and ?e5 = "NormalMove 52 36 None"
    and ?c5 = "NormalMove 50 34 None" and ?Nf3 = "NormalMove 6 21 None"
  have p1: "play ?R INITIAL_FEN ?e4 = FEN_e4" by code_simp
  have p2: "play ?R FEN_e4 ?e5 = FEN_e4_e5" by code_simp
  have p3: "play ?R FEN_e4 ?c5 = FEN_e4_c5" by code_simp
  have h1: "positionFromFen ?R INITIAL_FEN = Some INITIAL_FEN" by code_simp
  have h2: "turn ?R INITIAL_FEN = White" by code_simp
  have h3: "parseSan ?R INITIAL_FEN ''e4'' = Some ?e4" by code_simp
  have h4: "makeSan ?R INITIAL_FEN ?e4 = ''e4''" by code_simp
  have h5: "parseSan ?R FEN_e4 ''e5'' = Some ?e5" by code_simp
  have h6: "makeSan ?R FEN_e4 ?e5 = ''e5''" by code_simp
  have h7: "parseSan ?R FEN_e4 ''c5'' = Some ?c5" by code_simp
  have h8: "makeSan ?R FEN_e4 ?c5 = ''c5''" by code_simp
  have h9: "parseSan ?R FEN_e4_c5 ''Nf3'' = Some ?Nf3" by code_simp
  have h10: "makeSan ?R FEN_e4_c5 ?Nf3 = ''Nf3''" by code_simp
  have h11: "parseSan ?R FEN_e4_e5 ''Nf3'' = Some ?Nf3" by code_simp
  have h12: "makeSan ?R FEN_e4_e5 ?Nf3 = ''Nf3''" by code_simp
  note concl = innerParsePGN_variation_scenario [of ?R INITIAL_FEN ?e4 ?e5 ?c5 ?Nf3 ?Nf3
      basicAnnotations, unfolded p1 p2 p3, OF h1 h2 h3 h4 h5 h6 h7 h8 h9 h10 h11 h12]
  from concl have a: "\<not> isl (innerParsePGN ?R basicAnnotations 0 sicilianTokens INITIAL_FEN
               0 0 None (positionFromFen ?R INITIAL_FEN))" by (elim conjE)
  from concl have b: "snd (projr (innerParsePGN ?R basicAnnotations 0 sicilianTokens
                   INITIAL_FEN 0 0 None (positionFromFen ?R INITIAL_FEN))) = 7" by (elim conjE)
  from h1 h3 h5 h7 h9 h11 a b show ?thesis by (intro conjI)
qed

end
